theory Spec2Isabelle
  imports Complex_Main "HOL-Library.Word" "HOL-Library.Log_Nat"
begin

unbundle bit_operations_syntax

section \<open>Errors raised by the Python code\<close>

text \<open>
  Every exception the modelled functions can raise is a value of this type; a function
  that can raise returns \<open>py_error + 'a\<close>, with \<open>Inl\<close> for the exception.
\<close>

datatype py_error =
    IndexError
  | ValueError
  | OverflowError
  | OSError
  | ZeroDivisionError
  | RuntimeError string
  | RemoteError

section \<open>FixedPointDecoder: \<open>unpack_slot0\<close>\<close>

text \<open>
  \<^verbatim>\<open>
  def unpack_slot0(packed):
      sqrtPriceX96 = packed & ((1 << 160) - 1)
      tick = (packed >> 160) & ((1 << 24) - 1)
      if tick & (1 << 23):  # negative
          tick -= (1 << 24)
      protocolFee = (packed >> 184) & ((1 << 24) - 1)
      lpFee = (packed >> 208) & ((1 << 24) - 1)
      return sqrtPriceX96, tick, protocolFee, lpFee
  \<close>
  Python integers are unbounded, so \<open>packed\<close> is an \<open>int\<close>; \<open>1 << n\<close> is
  \<open>push_bit n 1\<close> and \<open>x >> n\<close> is \<open>drop_bit n x\<close>.
\<close>

definition unpack_slot0 :: "int \<Rightarrow> int \<times> int \<times> int \<times> int" where
  "unpack_slot0 packed =
     (let sqrtPriceX96 = packed AND (push_bit 160 1 - 1);
          tick = drop_bit 160 packed AND (push_bit 24 1 - 1);
          tick = (if tick AND push_bit 23 1 \<noteq> 0 then tick - push_bit 24 1 else tick);
          protocolFee = drop_bit 184 packed AND (push_bit 24 1 - 1);
          lpFee = drop_bit 208 packed AND (push_bit 24 1 - 1)
      in (sqrtPriceX96, tick, protocolFee, lpFee))"

text \<open>
  The packing of the specification (section 3 of the spec): four adjacent bit fields of
  widths 160, 24, 24, 24, least significant first; the tick is stored as a 24-bit
  two's-complement value. The three unsigned fields are naturals.
\<close>

definition pack_slot0 :: "nat \<Rightarrow> int \<Rightarrow> nat \<Rightarrow> nat \<Rightarrow> int" where
  "pack_slot0 sqrtPriceX96 tick protocolFee lpFee =
     int sqrtPriceX96
     + push_bit 160 (tick mod 2 ^ 24)
     + push_bit 184 (int protocolFee)
     + push_bit 208 (int lpFee)"

text \<open>The 24-bit tick field of a packed word, read arithmetically.\<close>

definition tick_field :: "int \<Rightarrow> int" where
  "tick_field packed = (packed div 2 ^ 160) mod 2 ^ 24"

section \<open>SnapshotStore: target times\<close>

text \<open>
  \<^verbatim>\<open>
  TARGET_HOURS = [0, 6, 12, 18]  # Midnight, 6am, noon, 6pm

  def is_target_time(timestamp, tolerance_minutes=30):
      dt = datetime.fromtimestamp(timestamp, tz=timezone.utc)
      hour = dt.hour
      minute = dt.minute
      for target_hour in TARGET_HOURS:
          minutes_from_target = abs((hour * 60 + minute) - (target_hour * 60))
          minutes_from_target = min(minutes_from_target, 24 * 60 - minutes_from_target)
          if minutes_from_target <= tolerance_minutes:
              return True
      return False
  \<close>
  Timestamps are integers (seconds since the epoch, as in block headers).
  \<open>datetime.fromtimestamp(timestamp, tz=timezone.utc)\<close> raises when the timestamp falls
  outside the years 1 to 9999 that \<open>datetime\<close> can represent; inside that range the hour
  and the minute of the UTC time of day are read off the timestamp. Only these two fields
  are used: the seconds of the time of day are dropped.

  The exception depends on how far outside the timestamp lies (CPython on Linux with a
  64-bit \<open>time_t\<close>): the conversion to \<open>time_t\<close> raises OverflowError below \<open>-2^63\<close> and
  from \<open>2^63\<close>; \<open>gmtime\<close> fails with OSError when the year does not fit its 32-bit field,
  below \<open>-67768040609740800\<close> and above \<open>67768036191676799\<close>; for the other years
  outside 1 to 9999 the constructor of \<open>datetime\<close> raises ValueError.
\<close>

definition valid_timestamp :: "int \<Rightarrow> bool" where
  "valid_timestamp ts = (- 62135596800 \<le> ts \<and> ts \<le> 253402300799)"

definition fromtimestamp_error :: "int \<Rightarrow> py_error" where
  "fromtimestamp_error timestamp =
     (if timestamp < - (2 ^ 63) \<or> 2 ^ 63 \<le> timestamp then OverflowError
      else if timestamp < - 67768040609740800 \<or> 67768036191676799 < timestamp then OSError
      else ValueError)"

definition fromtimestamp_utc :: "int \<Rightarrow> py_error + int \<times> int" where
  "fromtimestamp_utc timestamp =
     (if timestamp < - 62135596800 \<or> 253402300799 < timestamp
      then Inl (fromtimestamp_error timestamp)
      else Inr ((timestamp mod 86400) div 3600, (timestamp mod 3600) div 60))"

definition TARGET_HOURS :: "int list" where
  "TARGET_HOURS = [0, 6, 12, 18]"

text \<open>The \<open>for\<close> loop over the target hours, returning at the first hour in tolerance.\<close>

fun near_target_hour :: "int \<Rightarrow> int \<Rightarrow> int \<Rightarrow> int list \<Rightarrow> bool" where
  "near_target_hour hour minute tolerance_minutes [] = False"
| "near_target_hour hour minute tolerance_minutes (target_hour # rest) =
     (let minutes_from_target = \<bar>(hour * 60 + minute) - target_hour * 60\<bar>;
          minutes_from_target = min minutes_from_target (24 * 60 - minutes_from_target)
      in if minutes_from_target \<le> tolerance_minutes then True
         else near_target_hour hour minute tolerance_minutes rest)"

definition is_target_time :: "int \<Rightarrow> int \<Rightarrow> py_error + bool" where
  "is_target_time timestamp tolerance_minutes =
     (case fromtimestamp_utc timestamp of
        Inl e \<Rightarrow> Inl e
      | Inr (hour, minute) \<Rightarrow>
          Inr (near_target_hour hour minute tolerance_minutes TARGET_HOURS))"

text \<open>
  Vocabulary for the statements about the tolerance window. The minute of the day of a
  timestamp (seconds dropped), its circular distance in whole minutes from an anchor
  hour, and the same distance measured in seconds on the full time of day.
\<close>

definition minute_of_day :: "int \<Rightarrow> int" where
  "minute_of_day ts = (ts mod 86400) div 60"

definition minutes_from_anchor :: "int \<Rightarrow> int \<Rightarrow> int" where
  "minutes_from_anchor ts target_hour =
     min \<bar>minute_of_day ts - target_hour * 60\<bar>
         (24 * 60 - \<bar>minute_of_day ts - target_hour * 60\<bar>)"

definition seconds_from_anchor :: "int \<Rightarrow> int \<Rightarrow> int" where
  "seconds_from_anchor ts target_hour =
     min \<bar>ts mod 86400 - target_hour * 3600\<bar>
         (86400 - \<bar>ts mod 86400 - target_hour * 3600\<bar>)"

definition in_target_window :: "int \<Rightarrow> bool" where
  "in_target_window m =
     (m \<le> 30 \<or> (330 \<le> m \<and> m \<le> 390) \<or> (690 \<le> m \<and> m \<le> 750)
      \<or> (1050 \<le> m \<and> m \<le> 1110) \<or> 1410 \<le> m)"

section \<open>SnapshotStore: the three parallel lists\<close>

text \<open>
  The store is the triple of Python lists \<open>(timestamps, blocks, prices)\<close> that the
  functions take and return. Prices are floats that the store operations only move
  around, so their type is left open. A sample is a tuple \<open>(timestamp, block, price)\<close>.
\<close>

type_synonym 'p store = "int list \<times> int list \<times> 'p list"

type_synonym 'p sample = "int \<times> int \<times> 'p"

text \<open>
  \<open>xs.insert(pos, x)\<close> for \<open>0 \<le> pos\<close>: a position past the end appends.
\<close>

definition list_insert :: "nat \<Rightarrow> 'a \<Rightarrow> 'a list \<Rightarrow> 'a list" where
  "list_insert pos x xs = take pos xs @ x # drop pos xs"

text \<open>
  \<^verbatim>\<open>
  insert_pos = len(cleaned_timestamps)
  for i, ts in enumerate(cleaned_timestamps):
      if most_recent[0] < ts:
          insert_pos = i
          break
  \<close>
  The index of the first stored timestamp strictly greater than the new one, or the
  length of the list when there is none. The same loop is written three times in the
  source (in \<open>clean_data_keep_targets_and_current\<close>, \<open>update_current_price\<close> and
  \<open>main\<close>).
\<close>

fun find_insert_pos :: "int \<Rightarrow> int list \<Rightarrow> nat" where
  "find_insert_pos t [] = 0"
| "find_insert_pos t (ts # rest) = (if t < ts then 0 else Suc (find_insert_pos t rest))"

text \<open>
  \<^verbatim>\<open>
  def clean_data_keep_targets_and_current(timestamps, blocks, prices):
      if not timestamps:
          return timestamps, blocks, prices
      target_data = []
      non_target_data = []
      for i in range(len(timestamps)):
          if is_target_time(timestamps[i]):
              target_data.append((timestamps[i], blocks[i], prices[i]))
          else:
              non_target_data.append((timestamps[i], blocks[i], prices[i]))
      cleaned_timestamps = [item[0] for item in target_data]
      cleaned_blocks = [item[1] for item in target_data]
      cleaned_prices = [item[2] for item in target_data]
      if non_target_data:
          non_target_data.sort(key=lambda x: x[0])
          most_recent = non_target_data[-1]
          insert_pos = len(cleaned_timestamps)
          for i, ts in enumerate(cleaned_timestamps):
              if most_recent[0] < ts:
                  insert_pos = i
                  break
          cleaned_timestamps.insert(insert_pos, most_recent[0])
          cleaned_blocks.insert(insert_pos, most_recent[1])
          cleaned_prices.insert(insert_pos, most_recent[2])
      return cleaned_timestamps, cleaned_blocks, cleaned_prices
  \<close>
  The first loop runs over the indices of \<open>timestamps\<close>; at index \<open>i\<close> it evaluates
  \<open>is_target_time(timestamps[i])\<close> first, then \<open>blocks[i]\<close> and \<open>prices[i]\<close>, each of
  which raises IndexError when that list is shorter. \<open>split_targets\<close> walks the three
  lists together: its second and third arguments are \<open>blocks[i:]\<close> and \<open>prices[i:]\<close>.
  Both result lists are in the order of the appends.
\<close>

fun split_targets ::
  "int list \<Rightarrow> int list \<Rightarrow> 'p list \<Rightarrow> py_error + ('p sample list \<times> 'p sample list)" where
  "split_targets [] bs ps = Inr ([], [])"
| "split_targets (t # ts) bs ps =
     (case is_target_time t 30 of
        Inl e \<Rightarrow> Inl e
      | Inr is_target \<Rightarrow>
          (case bs of
             [] \<Rightarrow> Inl IndexError
           | b # bs' \<Rightarrow>
               (case ps of
                  [] \<Rightarrow> Inl IndexError
                | p # ps' \<Rightarrow>
                    (case split_targets ts bs' ps' of
                       Inl e \<Rightarrow> Inl e
                     | Inr (target_data, non_target_data) \<Rightarrow>
                         if is_target then Inr ((t, b, p) # target_data, non_target_data)
                         else Inr (target_data, (t, b, p) # non_target_data)))))"

text \<open>
  \<open>list.sort(key=...)\<close> is stable, and so is \<open>sort_key\<close>; \<open>non_target_data[-1]\<close> is
  read only when the list is not empty.
\<close>

definition clean_data_keep_targets_and_current :: "'p store \<Rightarrow> py_error + 'p store" where
  "clean_data_keep_targets_and_current st =
     (case st of (timestamps, blocks, prices) \<Rightarrow>
        if timestamps = [] then Inr (timestamps, blocks, prices)
        else
          (case split_targets timestamps blocks prices of
             Inl e \<Rightarrow> Inl e
           | Inr (target_data, non_target_data) \<Rightarrow>
               (let cleaned_timestamps = map fst target_data;
                    cleaned_blocks = map (\<lambda>item. fst (snd item)) target_data;
                    cleaned_prices = map (\<lambda>item. snd (snd item)) target_data
                in if non_target_data \<noteq> [] then
                     (let most_recent = last (sort_key fst non_target_data);
                          insert_pos = find_insert_pos (fst most_recent) cleaned_timestamps
                      in Inr (list_insert insert_pos (fst most_recent) cleaned_timestamps,
                              list_insert insert_pos (fst (snd most_recent)) cleaned_blocks,
                              list_insert insert_pos (snd (snd most_recent)) cleaned_prices))
                   else Inr (cleaned_timestamps, cleaned_blocks, cleaned_prices))))"

text \<open>
  \<^verbatim>\<open>
  def update_current_price(timestamps, blocks, prices,
                           current_timestamp, current_block, current_price):
      target_timestamps = []
      target_blocks = []
      target_prices = []
      for i in range(len(timestamps)):
          if is_target_time(timestamps[i]):
              target_timestamps.append(timestamps[i])
              target_blocks.append(blocks[i])
              target_prices.append(prices[i])
      insert_pos = len(target_timestamps)
      for i, ts in enumerate(target_timestamps):
          if current_timestamp < ts:
              insert_pos = i
              break
      target_timestamps.insert(insert_pos, current_timestamp)
      target_blocks.insert(insert_pos, current_block)
      target_prices.insert(insert_pos, current_price)
      return target_timestamps, target_blocks, target_prices
  \<close>
  Here \<open>blocks[i]\<close> and \<open>prices[i]\<close> are read only at the indices of target timestamps.
\<close>

fun keep_targets :: "int list \<Rightarrow> int list \<Rightarrow> 'p list \<Rightarrow> py_error + 'p store" where
  "keep_targets [] bs ps = Inr ([], [], [])"
| "keep_targets (t # ts) bs ps =
     (case is_target_time t 30 of
        Inl e \<Rightarrow> Inl e
      | Inr is_target \<Rightarrow>
          if is_target then
            (case bs of
               [] \<Rightarrow> Inl IndexError
             | b # bs' \<Rightarrow>
                 (case ps of
                    [] \<Rightarrow> Inl IndexError
                  | p # ps' \<Rightarrow>
                      (case keep_targets ts bs' ps' of
                         Inl e \<Rightarrow> Inl e
                       | Inr (target_timestamps, target_blocks, target_prices) \<Rightarrow>
                           Inr (t # target_timestamps, b # target_blocks, p # target_prices))))
          else keep_targets ts (tl bs) (tl ps))"

definition update_current_price ::
  "'p store \<Rightarrow> int \<Rightarrow> int \<Rightarrow> 'p \<Rightarrow> py_error + 'p store" where
  "update_current_price st current_timestamp current_block current_price =
     (case st of (timestamps, blocks, prices) \<Rightarrow>
        (case keep_targets timestamps blocks prices of
           Inl e \<Rightarrow> Inl e
         | Inr (target_timestamps, target_blocks, target_prices) \<Rightarrow>
             (let insert_pos = find_insert_pos current_timestamp target_timestamps
              in Inr (list_insert insert_pos current_timestamp target_timestamps,
                      list_insert insert_pos current_block target_blocks,
                      list_insert insert_pos current_price target_prices))))"

text \<open>
  The monitoring loop of \<open>main\<close>, target branch:
  \<^verbatim>\<open>
  insert_pos = len(ArrayOfTimestamps)
  for i, ts in enumerate(ArrayOfTimestamps):
      if current_timestamp < ts:
          insert_pos = i
          break
  ArrayOfTimestamps.insert(insert_pos, current_timestamp)
  ArrayOfBlocksSearched.insert(insert_pos, current_block)
  ArrayOfActualPrices.insert(insert_pos, current_price)
  # Remove oldest data points if over limit
  while len(ArrayOfTimestamps) > MAX_DATA_POINTS:
      ArrayOfTimestamps.pop(0)
      ArrayOfBlocksSearched.pop(0)
      ArrayOfActualPrices.pop(0)
  \<close>
  \<open>xs.pop(0)\<close> raises IndexError on an empty list. The eviction loop takes the limit as a
  parameter; \<open>main\<close> runs it with \<open>MAX_DATA_POINTS\<close>.
\<close>

definition MAX_DATA_POINTS :: nat where
  "MAX_DATA_POINTS = 4 * 30"

definition pop0 :: "'a list \<Rightarrow> py_error + 'a list" where
  "pop0 xs = (case xs of [] \<Rightarrow> Inl IndexError | x # rest \<Rightarrow> Inr rest)"

function evict_overflow :: "nat \<Rightarrow> 'p store \<Rightarrow> py_error + 'p store" where
  "evict_overflow max_data_points (timestamps, blocks, prices) =
     (if length timestamps > max_data_points then
        (case pop0 timestamps of
           Inl e \<Rightarrow> Inl e
         | Inr timestamps' \<Rightarrow>
             (case pop0 blocks of
                Inl e \<Rightarrow> Inl e
              | Inr blocks' \<Rightarrow>
                  (case pop0 prices of
                     Inl e \<Rightarrow> Inl e
                   | Inr prices' \<Rightarrow>
                       evict_overflow max_data_points (timestamps', blocks', prices'))))
      else Inr (timestamps, blocks, prices))"
  by pat_completeness auto
termination
  by (relation "measure (\<lambda>(m, st). length (fst st))")
     (auto simp add: pop0_def split: list.splits)

declare evict_overflow.simps [simp del]

definition insert_target_point ::
  "'p store \<Rightarrow> int \<Rightarrow> int \<Rightarrow> 'p \<Rightarrow> py_error + 'p store" where
  "insert_target_point st current_timestamp current_block current_price =
     (case st of (timestamps, blocks, prices) \<Rightarrow>
        (let insert_pos = find_insert_pos current_timestamp timestamps
         in evict_overflow MAX_DATA_POINTS
              (list_insert insert_pos current_timestamp timestamps,
               list_insert insert_pos current_block blocks,
               list_insert insert_pos current_price prices)))"

text \<open>
  One pass of the monitoring loop over the store:
  \<^verbatim>\<open>
  is_current_target = is_target_time(current_timestamp, tolerance_minutes=30)
  if is_current_target:
      ... insert and evict ...
  else:
      ... = update_current_price(..., current_timestamp, current_block, current_price)
  \<close>
\<close>

definition monitor_update ::
  "'p store \<Rightarrow> int \<Rightarrow> int \<Rightarrow> 'p \<Rightarrow> py_error + 'p store" where
  "monitor_update st current_timestamp current_block current_price =
     (case is_target_time current_timestamp 30 of
        Inl e \<Rightarrow> Inl e
      | Inr is_current_target \<Rightarrow>
          if is_current_target
          then insert_target_point st current_timestamp current_block current_price
          else update_current_price st current_timestamp current_block current_price)"

text \<open>
  The insertion of \<open>collect_historical_data\<close>, which places the sample after the longest
  prefix of strictly smaller timestamps:
  \<^verbatim>\<open>
  insert_pos = 0
  for j, existing_ts in enumerate(timestamps):
      if actual_timestamp > existing_ts:
          insert_pos = j + 1
      else:
          break
  timestamps.insert(insert_pos, actual_timestamp)
  blocks.insert(insert_pos, estimated_block)
  prices.insert(insert_pos, price)
  \<close>
\<close>

fun find_backfill_pos :: "int \<Rightarrow> int list \<Rightarrow> nat" where
  "find_backfill_pos t [] = 0"
| "find_backfill_pos t (existing_ts # rest) =
     (if t > existing_ts then Suc (find_backfill_pos t rest) else 0)"

definition insert_historical_point :: "'p store \<Rightarrow> int \<Rightarrow> int \<Rightarrow> 'p \<Rightarrow> 'p store" where
  "insert_historical_point st actual_timestamp estimated_block price =
     (case st of (timestamps, blocks, prices) \<Rightarrow>
        (let insert_pos = find_backfill_pos actual_timestamp timestamps
         in (list_insert insert_pos actual_timestamp timestamps,
             list_insert insert_pos estimated_block blocks,
             list_insert insert_pos price prices)))"

text \<open>
  A sequence of store operations, run in order; an exception ends the run.
\<close>

datatype 'p store_op =
    UpsertCurrent int int 'p
  | Clean
  | InsertTarget int int 'p
  | InsertHistorical int int 'p

fun apply_op :: "'p store_op \<Rightarrow> 'p store \<Rightarrow> py_error + 'p store" where
  "apply_op (UpsertCurrent t b p) st = update_current_price st t b p"
| "apply_op Clean st = clean_data_keep_targets_and_current st"
| "apply_op (InsertTarget t b p) st = insert_target_point st t b p"
| "apply_op (InsertHistorical t b p) st = Inr (insert_historical_point st t b p)"

fun apply_ops :: "'p store_op list \<Rightarrow> 'p store \<Rightarrow> py_error + 'p store" where
  "apply_ops [] st = Inr st"
| "apply_ops (op # ops) st =
     (case apply_op op st of Inl e \<Rightarrow> Inl e | Inr st' \<Rightarrow> apply_ops ops st')"

text \<open>Two calls of \<open>clean_data_keep_targets_and_current\<close> in a row.\<close>

definition clean_twice :: "'p store \<Rightarrow> py_error + 'p store" where
  "clean_twice st =
     (case clean_data_keep_targets_and_current st of
        Inl e \<Rightarrow> Inl e
      | Inr st' \<Rightarrow> clean_data_keep_targets_and_current st')"

text \<open>
  The predicates of the store invariant: the samples that are not target samples, and
  the well-formed stores (three lists of one length, every timestamp in the range of
  \<open>datetime\<close>).
\<close>

definition non_target_timestamps :: "int list \<Rightarrow> int list" where
  "non_target_timestamps tss = filter (\<lambda>t. is_target_time t 30 = Inr False) tss"

definition parallel_lists :: "'p store \<Rightarrow> bool" where
  "parallel_lists st =
     (case st of (timestamps, blocks, prices) \<Rightarrow>
        length blocks = length timestamps \<and> length prices = length timestamps)"

definition valid_store :: "'p store \<Rightarrow> bool" where
  "valid_store st = (parallel_lists st \<and> list_all valid_timestamp (fst st))"

section \<open>SnapshotStore: the store as a list of samples\<close>

text \<open>
  For the proofs the three parallel lists are read as one list of samples and written
  back as three columns. \<open>target_sample\<close> is the tag that \<open>is_target_time\<close> computes on a
  timestamp in the range of \<open>datetime\<close>, and \<open>clean_samples\<close> is what
  \<open>clean_data_keep_targets_and_current\<close> does on a store that is not empty, told on the
  list of samples.
\<close>

definition on_target :: "int \<Rightarrow> bool" where
  "on_target t = in_target_window (minute_of_day t)"

definition target_sample :: "'p sample \<Rightarrow> bool" where
  "target_sample s = on_target (fst s)"

definition samples :: "int list \<Rightarrow> int list \<Rightarrow> 'p list \<Rightarrow> 'p sample list" where
  "samples ts bs ps = zip ts (zip bs ps)"

definition columns :: "'p sample list \<Rightarrow> 'p store" where
  "columns z = (map fst z, map (\<lambda>item. fst (snd item)) z, map (\<lambda>item. snd (snd item)) z)"

definition clean_samples :: "'p sample list \<Rightarrow> 'p sample list" where
  "clean_samples z =
     (let target_data = filter target_sample z;
          non_target_data = filter (\<lambda>s. \<not> target_sample s) z
      in if non_target_data \<noteq> [] then
           (let most_recent = last (sort_key fst non_target_data)
            in list_insert (find_insert_pos (fst most_recent) (map fst target_data))
                 most_recent target_data)
         else target_data)"

text \<open>
  The operations a sequence may hold: every new timestamp is in the range of
  \<open>datetime\<close>, and the two insertions of target samples insert a sample whose timestamp
  \<open>is_target_time\<close> accepts (in \<open>main\<close> the insertion runs only under that test). The
  operations that rebuild the store from its target samples are \<open>update_current_price\<close>
  and \<open>clean_data_keep_targets_and_current\<close>.
\<close>

fun op_ok :: "'p store_op \<Rightarrow> bool" where
  "op_ok (UpsertCurrent t b p) = valid_timestamp t"
| "op_ok Clean = True"
| "op_ok (InsertTarget t b p) = (is_target_time t 30 = Inr True)"
| "op_ok (InsertHistorical t b p) = (is_target_time t 30 = Inr True)"

fun rebuilds :: "'p store_op \<Rightarrow> bool" where
  "rebuilds (UpsertCurrent t b p) = True"
| "rebuilds Clean = True"
| "rebuilds (InsertTarget t b p) = False"
| "rebuilds (InsertHistorical t b p) = False"

definition store_inv :: "'p store \<Rightarrow> bool" where
  "store_inv st = (valid_store st \<and> sorted (fst st))"

section \<open>RetryingReader: \<open>get_storage_with_retry\<close>\<close>

text \<open>
  \<^verbatim>\<open>
  def get_storage_with_retry(address, slot, block, retries=5, delay=2):
      attempt = 0
      while attempt < retries:
          try:
              data = w3.eth.getStorageAt(address, slot, block_identifier=block)
              print("Data: ", data)
              bytes32_hex = "0x" + data.hex().rjust(64, "0")
              print("Data hex: ", bytes32_hex)
              return int.from_bytes(data, "big")
          except Exception as e:
              print(f"Retry {attempt+1}/{retries} failed: {e}")
              attempt += 1
              time.sleep(delay)
      raise RuntimeError(f"Failed to fetch storage slot {slot} after {retries} retries")
  \<close>
  The node is outside the program. It is modelled by the outcome of each remote call:
  \<open>node address slot block k\<close> is what the call number \<open>k\<close> (counted from 0) of
  \<open>getStorageAt(address, slot, block)\<close> does, the bytes it returns or the exception it
  raises. The function returns its result together with the number of remote calls
  made so far. The fetched bytes are a bytes object, on which the two conversions of the
  \<open>try\<close> block cannot raise. The sleep between attempts has no effect on the result.
\<close>

type_synonym node = "string \<Rightarrow> string \<Rightarrow> int \<Rightarrow> nat \<Rightarrow> py_error + 8 word list"

text \<open>\<open>int.from_bytes(data, "big")\<close>: the unsigned big-endian value.\<close>

definition int_from_bytes_big :: "8 word list \<Rightarrow> int" where
  "int_from_bytes_big data = foldl (\<lambda>acc b. acc * 256 + uint b) 0 data"

text \<open>The decimal text of an integer, as an f-string prints it.\<close>

definition digit_char :: "nat \<Rightarrow> char" where
  "digit_char d = ''0123456789'' ! d"

function str_nat :: "nat \<Rightarrow> string" where
  "str_nat n = (if n < 10 then [digit_char n] else str_nat (n div 10) @ [digit_char (n mod 10)])"
  by pat_completeness auto
termination
  by (relation "measure (\<lambda>n. n)") auto

declare str_nat.simps [simp del]

definition str_int :: "int \<Rightarrow> string" where
  "str_int i = (if i < 0 then ''-'' @ str_nat (nat (- i)) else str_nat (nat i))"

definition retries_exhausted :: "string \<Rightarrow> int \<Rightarrow> py_error" where
  "retries_exhausted slot retries =
     RuntimeError (''Failed to fetch storage slot '' @ slot @ '' after ''
                   @ str_int retries @ '' retries'')"

function retry_loop ::
  "node \<Rightarrow> string \<Rightarrow> string \<Rightarrow> int \<Rightarrow> int \<Rightarrow> int \<Rightarrow> nat \<Rightarrow> (py_error + int) \<times> nat" where
  "retry_loop node address slot block retries attempt calls =
     (if attempt < retries then
        (case node address slot block calls of
           Inr data \<Rightarrow> (Inr (int_from_bytes_big data), Suc calls)
         | Inl e \<Rightarrow> retry_loop node address slot block retries (attempt + 1) (Suc calls))
      else (Inl (retries_exhausted slot retries), calls))"
  by pat_completeness auto
termination
  by (relation "measure (\<lambda>(node, address, slot, block, retries, attempt, calls).
                           nat (retries - attempt))") auto

declare retry_loop.simps [simp del]

definition get_storage_with_retry ::
  "node \<Rightarrow> string \<Rightarrow> string \<Rightarrow> int \<Rightarrow> int \<Rightarrow> (py_error + int) \<times> nat" where
  "get_storage_with_retry node address slot block retries =
     retry_loop node address slot block retries 0 0"

text \<open>The call with the default \<open>retries=5\<close>, as \<open>getSlot0\<close> makes it.\<close>

definition get_storage_default :: "node \<Rightarrow> string \<Rightarrow> string \<Rightarrow> int \<Rightarrow> (py_error + int) \<times> nat" where
  "get_storage_default node address slot block = get_storage_with_retry node address slot block 5"

text \<open>An attempt fails when the remote call raises.\<close>

definition attempt_fails :: "node \<Rightarrow> string \<Rightarrow> string \<Rightarrow> int \<Rightarrow> nat \<Rightarrow> bool" where
  "attempt_fails node address slot block k = (\<exists>e. node address slot block k = Inl e)"

text \<open>
  Two nodes for the examples: one whose first two calls raise and whose later calls
  return the 32-byte word \<open>80 00 ... 00 01 02 03\<close>, and one whose every call raises.
\<close>

definition flaky_node :: node where
  "flaky_node address slot block k =
     (if k < 2 then Inl RemoteError else Inr ([128] @ replicate 28 0 @ [1, 2, 3]))"

definition dead_node :: node where
  "dead_node address slot block k = Inl RemoteError"

section \<open>Python floats\<close>

text \<open>
  A Python float is an IEEE 754 binary64 number. The finite ones are rationals, and the
  model holds a float as the rational it denotes; a negative zero is the rational 0
  (nothing in the modelled code tells the two zeros apart). The arithmetic used by the
  code is the exact rational result rounded to the nearest binary64 value, ties to the
  even significand: the true division of two integers is correctly rounded in CPython,
  and so is the division of two floats by IEEE 754.

  \<open>ilog2 x\<close> is the binary exponent of a positive rational, \<open>\<lfloor>log\<^sub>2 x\<rfloor>\<close>, computed
  from the bit lengths of the numerator and the denominator. \<open>round_double\<close> rounds to
  53 significant bits, and below \<open>2\<^sup>-\<^sup>1\<^sup>0\<^sup>2\<^sup>2\<close> to multiples of \<open>2\<^sup>-\<^sup>1\<^sup>0\<^sup>7\<^sup>4\<close> (the
  subnormal numbers). A result of magnitude \<open>2\<^sup>1\<^sup>0\<^sup>2\<^sup>4\<close> or more is an overflow.
\<close>

definition ilog2 :: "rat \<Rightarrow> int" where
  "ilog2 x =
     (case quotient_of x of (p, q) \<Rightarrow>
        (let d = bitlen p - bitlen q in if 2 powi d \<le> x then d else d - 1))"

definition round_half_even :: "rat \<Rightarrow> int" where
  "round_half_even q =
     (let f = \<lfloor>q\<rfloor>; r = q - of_int f
      in if r < 1 / 2 then f else if 1 / 2 < r then f + 1 else if even f then f else f + 1)"

definition round_double :: "rat \<Rightarrow> rat" where
  "round_double x =
     (if x = 0 then 0
      else (let e = max (ilog2 \<bar>x\<bar>) (- 1022);
                ulp = 2 powi (e - 52)
            in sgn x * of_int (round_half_even (\<bar>x\<bar> / ulp)) * ulp))"

text \<open>The spacing of the binary64 values around \<open>x\<close>.\<close>

definition ulp_of :: "rat \<Rightarrow> rat" where
  "ulp_of x = 2 powi (max (ilog2 \<bar>x\<bar>) (- 1022) - 52)"

definition float_overflow :: "rat \<Rightarrow> bool" where
  "float_overflow r = (2 ^ 1024 \<le> \<bar>r\<bar>)"

text \<open>
  \<open>a / b\<close> on two integers: ZeroDivisionError on a zero divisor, OverflowError when the
  rounded quotient is too large for a float.
\<close>

definition int_truediv :: "int \<Rightarrow> int \<Rightarrow> py_error + rat" where
  "int_truediv a b =
     (if b = 0 then Inl ZeroDivisionError
      else (let r = round_double (of_int a / of_int b)
            in if float_overflow r then Inl OverflowError else Inr r))"

text \<open>
  \<open>a / y\<close> on an integer and a float: the integer is converted to a float first
  (OverflowError when it is too large), then the two floats are divided. A quotient that
  overflows is an infinity in Python and raises nothing by itself; the only use of this
  division in the modelled code is \<open>int(time_diff / seconds_per_block)\<close>, where \<open>int\<close>
  raises OverflowError on the infinity at once, so the model raises it here.
\<close>

definition int_float_truediv :: "int \<Rightarrow> rat \<Rightarrow> py_error + rat" where
  "int_float_truediv a y =
     (let x = round_double (of_int a)
      in if float_overflow x then Inl OverflowError
         else if y = 0 then Inl ZeroDivisionError
         else (let r = round_double (x / y)
               in if float_overflow r then Inl OverflowError else Inr r))"

text \<open>\<open>int(x)\<close> on a finite float truncates towards zero.\<close>

definition int_of_float :: "rat \<Rightarrow> int" where
  "int_of_float x = (if 0 \<le> x then \<lfloor>x\<rfloor> else - \<lfloor>- x\<rfloor>)"

section \<open>FixedPointDecoder: \<open>sqrtPriceX96_to_price\<close>\<close>

text \<open>
  \<^verbatim>\<open>
  Q192 = 2 ** 192

  def sqrtPriceX96_to_price(sq):
      return (sq ** 2) / Q192
  \<close>
\<close>

definition Q192 :: int where
  "Q192 = 2 ^ 192"

definition sqrtPriceX96_to_price :: "int \<Rightarrow> py_error + rat" where
  "sqrtPriceX96_to_price sq = int_truediv (sq ^ 2) Q192"

section \<open>BlockTimeEstimator: \<open>estimate_block_from_timestamp\<close>\<close>

text \<open>
  \<^verbatim>\<open>
  def estimate_block_from_timestamp(target_timestamp, current_block, current_timestamp):
      try:
          blocks_24h_ago_estimate = int((24 * 60 * 60) / 2)  # ~43200 blocks
          sample_block_24h_ago = max(1, current_block - blocks_24h_ago_estimate)
          sample_block_data = w3.eth.getBlock(sample_block_24h_ago)
          sample_timestamp_24h_ago = sample_block_data["timestamp"]
          actual_time_diff = current_timestamp - sample_timestamp_24h_ago
          actual_block_diff = current_block - sample_block_24h_ago
          if actual_block_diff > 0 and actual_time_diff > 0:
              seconds_per_block = actual_time_diff / actual_block_diff
              print(f"Calculated seconds per block: {seconds_per_block:.3f} (over
                {actual_block_diff} blocks, {actual_time_diff/3600:.1f} hours)")
          else:
              seconds_per_block = 2.0
          time_diff = current_timestamp - target_timestamp
          blocks_diff = int(time_diff / seconds_per_block)
          estimated_block = current_block - blocks_diff
          return max(1, estimated_block)
      except Exception as e:
          time_diff = current_timestamp - target_timestamp
          blocks_diff = int(time_diff / 2)  # Assuming 2 seconds per block
          estimated_block = current_block - blocks_diff
          return max(1, estimated_block)
  \<close>
  The chain is a parameter: \<open>getBlock b\<close> is the timestamp of block \<open>b\<close>, or the exception
  that the remote read raises. The reference block is not an argument of the function:
  it is chosen by the function itself, 43200 blocks before the current block. The
  division inside the \<open>print\<close> is part of the \<open>try\<close> block and can raise as well.
\<close>

definition estimate_try ::
  "(int \<Rightarrow> py_error + int) \<Rightarrow> int \<Rightarrow> int \<Rightarrow> int \<Rightarrow> py_error + int" where
  "estimate_try getBlock target_timestamp current_block current_timestamp =
     (case int_truediv (24 * 60 * 60) 2 of
        Inl e \<Rightarrow> Inl e
      | Inr day_blocks \<Rightarrow>
          (let blocks_24h_ago_estimate = int_of_float day_blocks;
               sample_block_24h_ago = max 1 (current_block - blocks_24h_ago_estimate)
           in case getBlock sample_block_24h_ago of
                Inl e \<Rightarrow> Inl e
              | Inr sample_timestamp_24h_ago \<Rightarrow>
                  (let actual_time_diff = current_timestamp - sample_timestamp_24h_ago;
                       actual_block_diff = current_block - sample_block_24h_ago
                   in case (if actual_block_diff > 0 \<and> actual_time_diff > 0 then
                              (case int_truediv actual_time_diff actual_block_diff of
                                 Inl e \<Rightarrow> Inl e
                               | Inr seconds_per_block \<Rightarrow>
                                   (case int_truediv actual_time_diff 3600 of
                                      Inl e \<Rightarrow> Inl e
                                    | Inr hours \<Rightarrow> Inr seconds_per_block))
                            else Inr 2) of
                        Inl e \<Rightarrow> Inl e
                      | Inr seconds_per_block \<Rightarrow>
                          (let time_diff = current_timestamp - target_timestamp
                           in case int_float_truediv time_diff seconds_per_block of
                                Inl e \<Rightarrow> Inl e
                              | Inr ratio \<Rightarrow>
                                  (let blocks_diff = int_of_float ratio;
                                       estimated_block = current_block - blocks_diff
                                   in Inr (max 1 estimated_block))))))"

definition estimate_except :: "int \<Rightarrow> int \<Rightarrow> int \<Rightarrow> py_error + int" where
  "estimate_except target_timestamp current_block current_timestamp =
     (let time_diff = current_timestamp - target_timestamp
      in case int_truediv time_diff 2 of
           Inl e \<Rightarrow> Inl e
         | Inr ratio \<Rightarrow>
             (let blocks_diff = int_of_float ratio;
                  estimated_block = current_block - blocks_diff
              in Inr (max 1 estimated_block)))"

definition estimate_block_from_timestamp ::
  "(int \<Rightarrow> py_error + int) \<Rightarrow> int \<Rightarrow> int \<Rightarrow> int \<Rightarrow> py_error + int" where
  "estimate_block_from_timestamp getBlock target_timestamp current_block current_timestamp =
     (case estimate_try getBlock target_timestamp current_block current_timestamp of
        Inr estimated_block \<Rightarrow> Inr estimated_block
      | Inl e \<Rightarrow> estimate_except target_timestamp current_block current_timestamp)"

text \<open>
  The estimator as the specification tells it (section 4.3 and the estimator scenario of
  section 8): the reference block and its timestamp are given, the fallback of 2 seconds
  per block is taken exactly when the block difference is not positive, and the quotient
  is rounded down.
\<close>

definition spec_estimate :: "int \<Rightarrow> int \<Rightarrow> int \<Rightarrow> int \<Rightarrow> int \<Rightarrow> py_error + int" where
  "spec_estimate reference_block reference_timestamp target_timestamp current_block
       current_timestamp =
     (case (if current_block - reference_block \<le> 0 then Inr 2
            else int_truediv (current_timestamp - reference_timestamp)
                   (current_block - reference_block)) of
        Inl e \<Rightarrow> Inl e
      | Inr seconds_per_block \<Rightarrow>
          (case int_float_truediv (current_timestamp - target_timestamp) seconds_per_block of
             Inl e \<Rightarrow> Inl e
           | Inr ratio \<Rightarrow> Inr (max 1 (current_block - \<lfloor>ratio\<rfloor>))))"

text \<open>Division of integers that truncates towards zero, as \<open>int(a / b)\<close> does on small values.\<close>

definition trunc_div :: "int \<Rightarrow> int \<Rightarrow> int" where
  "trunc_div a b = sgn a * sgn b * (\<bar>a\<bar> div \<bar>b\<bar>)"

text \<open>
  Chains for the examples, with the current block 1000 at time 1000000. On the steady
  chain every block takes 2 seconds. On the uneven chain block 900 is 200 seconds old,
  as in the scenario of the spec, and the blocks up to block 899 took 8 seconds each. On
  the stalled chain every block carries the timestamp 1000000. The dead chain answers no
  read.
\<close>

definition steady_chain :: "int \<Rightarrow> py_error + int" where
  "steady_chain b = Inr (1000000 - 2 * (1000 - b))"

definition uneven_chain :: "int \<Rightarrow> py_error + int" where
  "uneven_chain b =
     Inr (if 900 \<le> b then 1000000 - 2 * (1000 - b) else 1000000 - 7992 + 8 * (b - 1))"

definition stalled_chain :: "int \<Rightarrow> py_error + int" where
  "stalled_chain b = Inr 1000000"

definition dead_chain :: "int \<Rightarrow> py_error + int" where
  "dead_chain b = Inl RemoteError"

section \<open>LogScanner\<close>

text \<open>
  A log entry as \<open>process_transaction\<close> reads it: \<open>transactionHash\<close>, the entries of
  \<open>topics\<close> and \<open>data\<close> are the strings that \<open>.hex()\<close> returns on the fields of the
  entry. A record of \<open>mined_blocks\<close> is the Python list
  \<open>[block_number, tx_hash, miner_address, amount]\<close>; the amount is a float, or the integer
  0 or -1, and is held as the rational it denotes. The fetcher keeps \<open>mined_blocks\<close> and
  \<open>previous_challenge\<close> in memory; \<open>last_processed_block_file\<close> is the value stored under
  the key \<open>last_block\<close> in the checkpoint file, \<open>None\<close> when the file is absent, cannot be
  read or lacks the key.
\<close>

record transaction =
  transactionHash :: string
  blockNumber :: int
  topics :: "string list"
  data :: string

type_synonym mined_block = "int \<times> string \<times> string \<times> rat"

record fetcher =
  mined_blocks :: "mined_block list"
  previous_challenge :: "string option"
  last_processed_block_file :: "int option"

definition eth_block_start :: int where
  "eth_block_start = 30111966"

text \<open>The fetcher after \<open>__init__\<close>, with no checkpoint file on disk.\<close>

definition new_fetcher :: fetcher where
  "new_fetcher =
     \<lparr>mined_blocks = [], previous_challenge = None, last_processed_block_file = None\<rparr>"

text \<open>
  \<^verbatim>\<open>
  def load_last_processed_block(self) -> int:
      if os.path.exists(self.last_processed_block_file):
          try:
              with open(self.last_processed_block_file, 'r') as f:
                  data = json.load(f)
                  return data.get('last_block', self.eth_block_start)
          except (json.JSONDecodeError, KeyError):
              return self.eth_block_start
      return self.eth_block_start

  def save_last_processed_block(self, block_number: int):
      data = {'last_block': block_number}
      with open(self.last_processed_block_file, 'w') as f:
          json.dump(data, f, indent=2)
  \<close>
\<close>

definition load_last_processed_block :: "fetcher \<Rightarrow> int" where
  "load_last_processed_block self =
     (case last_processed_block_file self of
        None \<Rightarrow> eth_block_start
      | Some last_block \<Rightarrow> last_block)"

definition save_last_processed_block :: "fetcher \<Rightarrow> int \<Rightarrow> fetcher" where
  "save_last_processed_block self block_number =
     self\<lparr>last_processed_block_file := Some block_number\<rparr>"

text \<open>
  \<^verbatim>\<open>
  def get_miner_address_from_topic(self, topic: str) -> str:
      if topic.startswith('0x'):
          topic = topic[2:]
      if len(topic) >= 40:
          return '0x' + topic[-40:]
      return topic
  \<close>
\<close>

definition get_miner_address_from_topic :: "string \<Rightarrow> string" where
  "get_miner_address_from_topic topic =
     (let topic = (if take 2 topic = ''0x'' then drop 2 topic else topic)
      in if length topic \<ge> 40 then ''0x'' @ drop (length topic - 40) topic else topic)"

text \<open>
  \<open>int(s, 16)\<close> on a string of hexadecimal digits; any other character raises
  ValueError. (Python also accepts a sign, a \<open>0x\<close> prefix, underscores and surrounding
  blanks, none of which occurs in the output of \<open>.hex()\<close> from the third character
  on.) The empty string raises as well.
\<close>

definition hex_digit_value :: "char \<Rightarrow> int option" where
  "hex_digit_value c =
     map_of [(CHR ''0'', 0), (CHR ''1'', 1), (CHR ''2'', 2), (CHR ''3'', 3), (CHR ''4'', 4),
             (CHR ''5'', 5), (CHR ''6'', 6), (CHR ''7'', 7), (CHR ''8'', 8), (CHR ''9'', 9),
             (CHR ''a'', 10), (CHR ''b'', 11), (CHR ''c'', 12), (CHR ''d'', 13),
             (CHR ''e'', 14), (CHR ''f'', 15),
             (CHR ''A'', 10), (CHR ''B'', 11), (CHR ''C'', 12), (CHR ''D'', 13),
             (CHR ''E'', 14), (CHR ''F'', 15)] c"

fun parse_hex_digits :: "int \<Rightarrow> string \<Rightarrow> py_error + int" where
  "parse_hex_digits acc [] = Inr acc"
| "parse_hex_digits acc (c # cs) =
     (case hex_digit_value c of
        None \<Rightarrow> Inl ValueError
      | Some d \<Rightarrow> parse_hex_digits (acc * 16 + d) cs)"

definition int_base16 :: "string \<Rightarrow> py_error + int" where
  "int_base16 s = (if s = [] then Inl ValueError else parse_hex_digits 0 s)"

text \<open>The slice \<open>s[a:b]\<close> for \<open>0 \<le> a \<le> b\<close>.\<close>

definition str_slice :: "nat \<Rightarrow> nat \<Rightarrow> 'a list \<Rightarrow> 'a list" where
  "str_slice a b s = take (b - a) (drop a s)"

text \<open>
  \<^verbatim>\<open>
  def process_transaction(self, transaction: Dict[str, Any]):
      tx_hash = transaction['transactionHash'].hex()
      block_number = int(transaction['blockNumber'])
      miner_address = self.get_miner_address_from_topic(transaction['topics'][1].hex())
      data = transaction['data'].hex()
      if len(data) >= 66:  # '0x' + 64 characters
          data_amt_hex = data[2:66]
          data_amt = int(data_amt_hex, 16) / (10 ** 18)
      else:
          data_amt = 0
      if len(data) >= 194:
          challenger = data[130:194]
          if self.previous_challenge != challenger:
              previous_challenge2 = self.previous_challenge
              self.previous_challenge = challenger
              if previous_challenge2 is not None:
                  first_block_num = self.mined_blocks[0][0] if self.mined_blocks else block_number
                  new_block = [first_block_num, tx_hash, miner_address, -1]
                  self.mined_blocks.insert(0, new_block)
      self.mined_blocks.insert(0, [block_number, tx_hash, miner_address, data_amt])
  \<close>
  Both places that can raise (\<open>topics[1]\<close> and \<open>int(..., 16)\<close>) come before the first
  assignment to a field, so an exception leaves the fetcher as it was.
\<close>

definition challenge_field :: "transaction \<Rightarrow> string" where
  "challenge_field tx = str_slice 130 194 (data tx)"

definition process_transaction :: "fetcher \<Rightarrow> transaction \<Rightarrow> py_error + fetcher" where
  "process_transaction self tx =
     (let tx_hash = transactionHash tx;
          block_number = blockNumber tx
      in if length (topics tx) < 2 then Inl IndexError
         else
           (let miner_address = get_miner_address_from_topic (topics tx ! 1)
            in case (if length (data tx) \<ge> 66 then
                       (case int_base16 (str_slice 2 66 (data tx)) of
                          Inl e \<Rightarrow> Inl e
                        | Inr wei \<Rightarrow> int_truediv wei (10 ^ 18))
                     else Inr 0) of
                 Inl e \<Rightarrow> Inl e
               | Inr data_amt \<Rightarrow>
                   (let self =
                      (if length (data tx) \<ge> 194 then
                         (let challenger = challenge_field tx
                          in if previous_challenge self \<noteq> Some challenger then
                               (let previous_challenge2 = previous_challenge self;
                                    self = self\<lparr>previous_challenge := Some challenger\<rparr>
                                in if previous_challenge2 \<noteq> None then
                                     (let first_block_num =
                                            (if mined_blocks self \<noteq> []
                                             then fst (hd (mined_blocks self))
                                             else block_number);
                                          new_block = (first_block_num, tx_hash, miner_address, - 1)
                                      in self\<lparr>mined_blocks := new_block # mined_blocks self\<rparr>)
                                   else self)
                             else self)
                       else self)
                    in Inr (self\<lparr>mined_blocks :=
                              (block_number, tx_hash, miner_address, data_amt)
                              # mined_blocks self\<rparr>))))"

text \<open>
  The loop \<open>for transaction in logs: self.process_transaction(transaction)\<close>. An
  exception ends the loop; the records of the entries before it stay in the fetcher.
\<close>

fun process_all :: "fetcher \<Rightarrow> transaction list \<Rightarrow> fetcher \<times> py_error option" where
  "process_all self [] = (self, None)"
| "process_all self (tx # logs) =
     (case process_transaction self tx of
        Inl e \<Rightarrow> (self, Some e)
      | Inr self' \<Rightarrow> process_all self' logs)"

text \<open>
  \<^verbatim>\<open>
  def fetch_logs(self, start_block: int, end_block: int) -> List[Dict[str, Any]]:
      try:
          logs = self.w3.eth.get_logs({'fromBlock': start_block, 'toBlock': end_block,
              'address': self.bwork_contract_address, 'topics': [self.mint_topic]})
          return logs
      except Exception as e:
          return []
  \<close>
  The node is a parameter: \<open>get_logs start_block end_block\<close> is the list of entries that
  the remote call returns for the range, or the exception it raises.
\<close>

definition fetch_logs ::
  "(int \<Rightarrow> int \<Rightarrow> py_error + transaction list) \<Rightarrow> int \<Rightarrow> int \<Rightarrow> transaction list" where
  "fetch_logs get_logs start_block end_block =
     (case get_logs start_block end_block of Inl e \<Rightarrow> [] | Inr logs \<Rightarrow> logs)"

text \<open>
  \<^verbatim>\<open>
  def run_once(self, batch_size: int = 499):
      try:
          start_block = self.load_last_processed_block()
          current_block = self.w3.eth.get_block('latest')['number']
          if start_block > current_block:
              print("Already up to date!")
              return
          current_start = start_block
          while current_start <= current_block:
              current_end = min(current_start + batch_size - 1, current_block)
              logs = self.fetch_logs(current_start, current_end)
              for transaction in logs:
                  self.process_transaction(transaction)
              self.save_last_processed_block(current_end)
              current_start = current_end + 1
          self.save_mined_blocks_to_file()
      except Exception as e:
          print(f"Error during fetch: {e}")
  \<close>
  The loop need not end (a batch size of 0 fetches the same window for ever), so it is
  a partial function: \<open>None\<close> is a run that never returns. The result of a run that
  returns is the fetcher together with the list of the ranges passed to \<open>fetch_logs\<close>, in
  the order of the calls. The output files written by \<open>save_mined_blocks_to_file\<close> are
  not part of the model.
\<close>

partial_function (option) scan_windows ::
  "(int \<Rightarrow> int \<Rightarrow> py_error + transaction list) \<Rightarrow> int \<Rightarrow> int \<Rightarrow> int \<Rightarrow> fetcher
     \<Rightarrow> (int \<times> int) list \<Rightarrow> (fetcher \<times> (int \<times> int) list) option" where
  "scan_windows get_logs batch_size current_block current_start self fetched =
     (if current_start \<le> current_block then
        (case process_all self
                (fetch_logs get_logs current_start
                   (min (current_start + batch_size - 1) current_block)) of
           (self', Some e) \<Rightarrow>
             Some (self', fetched @ [(current_start,
                                      min (current_start + batch_size - 1) current_block)])
         | (self', None) \<Rightarrow>
             scan_windows get_logs batch_size current_block
               (min (current_start + batch_size - 1) current_block + 1)
               (save_last_processed_block self'
                  (min (current_start + batch_size - 1) current_block))
               (fetched @ [(current_start,
                            min (current_start + batch_size - 1) current_block)]))
      else Some (self, fetched))"

declare scan_windows.simps [code]

definition run_once ::
  "(py_error + int) \<Rightarrow> (int \<Rightarrow> int \<Rightarrow> py_error + transaction list) \<Rightarrow> int \<Rightarrow> fetcher
     \<Rightarrow> (fetcher \<times> (int \<times> int) list) option" where
  "run_once latest_block_number get_logs batch_size self =
     (let start_block = load_last_processed_block self
      in case latest_block_number of
           Inl e \<Rightarrow> Some (self, [])
         | Inr current_block \<Rightarrow>
             if start_block > current_block then Some (self, [])
             else scan_windows get_logs batch_size current_block start_block self [])"

text \<open>A node with no matching log entries, for the examples.\<close>

definition no_logs :: "int \<Rightarrow> int \<Rightarrow> py_error + transaction list" where
  "no_logs start_block end_block = Inr []"

text \<open>
  Vocabulary for the statements about the challenge marker: the miner address of an
  entry, and, following the words of the spec (\<open>firstBlockOfPreviousChallenge\<close>), the
  block of the first entry of a sequence that carries a given challenge.
\<close>

definition miner_of :: "transaction \<Rightarrow> string" where
  "miner_of tx = get_miner_address_from_topic (topics tx ! 1)"

fun first_block_of_challenge :: "transaction list \<Rightarrow> string \<Rightarrow> int option" where
  "first_block_of_challenge [] c = None"
| "first_block_of_challenge (tx # rest) c =
     (if length (data tx) \<ge> 194 \<and> challenge_field tx = c then Some (blockNumber tx)
      else first_block_of_challenge rest c)"

text \<open>
  Mint entries for the examples: 50 tokens (in wei, 64 hexadecimal digits), a second
  word of zeros, and the challenge as the third word.
\<close>

definition mint_event :: "int \<Rightarrow> string \<Rightarrow> string \<Rightarrow> transaction" where
  "mint_event block tx_hash challenge =
     \<lparr>transactionHash = tx_hash, blockNumber = block,
      topics = [''0xcf6fbb9dcea7d07263ab4f5c3a92f53af33dffc421d9d121e1c74b307e68189d'',
                ''0x0000000000000000000000007adf1927aa0c75fd054804e9fc6574a56c211abb''],
      data = ''0x'' @ replicate 47 CHR ''0'' @ ''2b5e3af16b1880000''
             @ replicate 64 CHR ''0'' @ challenge\<rparr>"

definition challenge_A :: string where
  "challenge_A = replicate 64 CHR ''a''"

definition challenge_B :: string where
  "challenge_B = replicate 64 CHR ''b''"

text \<open>
  The records that one call of \<open>process_transaction\<close> puts in front of \<open>mined_blocks\<close>
  for an entry with a challenge field and the amount \<open>amt\<close>: the record of the entry,
  and under it the marker when the stored challenge is set and differs.
\<close>

definition emitted :: "fetcher \<Rightarrow> transaction \<Rightarrow> rat \<Rightarrow> mined_block list" where
  "emitted self tx amt =
     (blockNumber tx, transactionHash tx, miner_of tx, amt)
     # (if previous_challenge self \<noteq> Some (challenge_field tx) \<and> previous_challenge self \<noteq> None
        then [(if mined_blocks self \<noteq> [] then fst (hd (mined_blocks self)) else blockNumber tx,
               transactionHash tx, miner_of tx, - 1)]
        else [])"

chapter \<open>Properties\<close>

section \<open>Round trip of the slot0 layout\<close>

lemma and_low_bits: "(x::int) AND (push_bit n 1 - 1) = x mod 2 ^ n"
  by (simp add: push_bit_eq_mult flip: mask_eq_exp_minus_1 take_bit_eq_mask take_bit_eq_mod)

lemma and_low_bits_exp: "(x::int) AND (2 ^ n - 1) = x mod 2 ^ n"
  by (simp flip: mask_eq_exp_minus_1 take_bit_eq_mask take_bit_eq_mod)

lemma odd_div_top_bit:
  fixes f :: int
  assumes "0 \<le> f" "f < 2 ^ 24"
  shows "odd (f div 2 ^ 23) = (2 ^ 23 \<le> f)"
proof (cases "f < 2 ^ 23")
  case True
  then have "f div 2 ^ 23 = 0" using assms by (simp add: div_pos_pos_trivial)
  then show ?thesis using True by simp
next
  case False
  then have "f div 2 ^ 23 = (f - 2 ^ 23) div 2 ^ 23 + 1"
    by (simp add: div_pos_geq)
  moreover have "(f - 2 ^ 23) div 2 ^ 23 = 0"
    using assms False by (simp add: div_pos_pos_trivial)
  ultimately show ?thesis using False by simp
qed

lemma bit23_iff:
  fixes f :: int
  assumes "0 \<le> f" "f < 2 ^ 24"
  shows "bit f 23 = (2 ^ 23 \<le> f)"
  using odd_div_top_bit [OF assms] by (simp add: bit_iff_odd)

lemma sign_test_iff:
  fixes f :: int
  assumes "0 \<le> f" "f < 2 ^ 24"
  shows "(f AND push_bit 23 1 \<noteq> 0) = (2 ^ 23 \<le> f)"
  using bit23_iff [OF assms] by (simp add: bit_iff_and_push_bit_not_eq_0)

lemma tick_field_range: "0 \<le> tick_field p" "tick_field p < 2 ^ 24"
  by (simp_all add: tick_field_def)

text \<open>\<open>unpack_slot0\<close> read with \<open>div\<close> and \<open>mod\<close> instead of shifts and masks.\<close>

lemma unpack_slot0_arith:
  "unpack_slot0 p = (p mod 2 ^ 160,
     (if 2 ^ 23 \<le> tick_field p then tick_field p - 2 ^ 24 else tick_field p),
     (p div 2 ^ 184) mod 2 ^ 24, (p div 2 ^ 208) mod 2 ^ 24)"
proof -
  have b: "(tick_field p AND push_bit 23 1 \<noteq> 0) = (2 ^ 23 \<le> tick_field p)"
    by (rule sign_test_iff [OF tick_field_range])
  have t: "drop_bit 160 p AND (push_bit 24 1 - 1) = tick_field p"
    by (simp only: and_low_bits tick_field_def drop_bit_eq_div)
  have p24: "push_bit 24 (1::int) = 2 ^ 24" by (simp only: push_bit_eq_mult mult_1)
  show ?thesis
    unfolding unpack_slot0_def Let_def t b
    by (simp only: and_low_bits and_low_bits_exp drop_bit_eq_div p24)
qed

lemma split_low_field:
  fixes a b :: int
  assumes "0 \<le> a" "a < 2 ^ n"
  shows "(a + 2 ^ n * b) mod 2 ^ n = a" "(a + 2 ^ n * b) div 2 ^ n = b"
  using assms by (simp_all add: div_pos_pos_trivial)

lemma pack_slot0_nested:
  "pack_slot0 sq tick pf lf =
     int sq + 2 ^ 160 * (tick mod 2 ^ 24 + 2 ^ 24 * (int pf + 2 ^ 24 * int lf))"
  by (simp add: pack_slot0_def push_bit_eq_mult)

lemma tick_sign_extend:
  fixes tick :: int
  assumes "- (2 ^ 23) \<le> tick" "tick < 2 ^ 23"
  shows "(if 2 ^ 23 \<le> tick mod 2 ^ 24 then tick mod 2 ^ 24 - 2 ^ 24 else tick mod 2 ^ 24) = tick"
proof (cases "0 \<le> tick")
  case True
  then have "tick mod 2 ^ 24 = tick" using assms by simp
  then show ?thesis using assms by simp
next
  case False
  have "tick mod 2 ^ 24 = (tick + 2 ^ 24) mod 2 ^ 24" by simp
  also have "\<dots> = tick + 2 ^ 24"
    by (rule mod_pos_pos_trivial) (use assms False in simp_all)
  finally show ?thesis using assms by simp
qed

lemma tick_field_pack:
  "tick_field (pack_slot0 sq tick pf lf) = tick mod 2 ^ 24" if "sq < 2 ^ 160"
proof -
  have sq: "0 \<le> int sq" "int sq < 2 ^ 160" using that by simp_all
  have tm: "0 \<le> tick mod 2 ^ 24" "tick mod 2 ^ 24 < 2 ^ 24" by simp_all
  show ?thesis
    unfolding tick_field_def pack_slot0_nested split_low_field(2) [OF sq]
    by (rule split_low_field(1) [OF tm])
qed

lemma unpack_pack_slot0:
  assumes "sq < 2 ^ 160" "- (2 ^ 23) \<le> tick" "tick < 2 ^ 23" "pf < 2 ^ 24" "lf < 2 ^ 24"
  shows "unpack_slot0 (pack_slot0 sq tick pf lf) = (int sq, tick, int pf, int lf)"
proof -
  let ?p = "pack_slot0 sq tick pf lf"
  let ?hi = "tick mod 2 ^ 24 + 2 ^ 24 * (int pf + 2 ^ 24 * int lf)"
  have sq: "0 \<le> int sq" "int sq < 2 ^ 160" using assms(1) by simp_all
  have pf: "0 \<le> int pf" "int pf < 2 ^ 24" using assms(4) by simp_all
  have lf: "0 \<le> int lf" "int lf < 2 ^ 24" using assms(5) by simp_all
  have tm: "0 \<le> tick mod 2 ^ 24" "tick mod 2 ^ 24 < 2 ^ 24" by simp_all
  have p: "?p = int sq + 2 ^ 160 * ?hi" by (rule pack_slot0_nested)
  have m160: "?p mod 2 ^ 160 = int sq" and d160: "?p div 2 ^ 160 = ?hi"
    unfolding p by (rule split_low_field [OF sq])+
  have tf: "tick_field ?p = tick mod 2 ^ 24"
    by (rule tick_field_pack [OF assms(1)])
  have d184: "?p div 2 ^ 184 = int pf + 2 ^ 24 * int lf"
  proof -
    have "?p div 2 ^ 184 = (?p div 2 ^ 160) div 2 ^ 24"
      by (simp add: div_mult2_eq [symmetric])
    then show ?thesis unfolding d160 by (simp only: split_low_field(2) [OF tm])
  qed
  have d208: "?p div 2 ^ 208 = int lf"
  proof -
    have "?p div 2 ^ 208 = (?p div 2 ^ 184) div 2 ^ 24"
      by (simp add: div_mult2_eq [symmetric])
    then show ?thesis unfolding d184 by (simp only: split_low_field(2) [OF pf])
  qed
  have f1: "(?p div 2 ^ 184) mod 2 ^ 24 = int pf"
    unfolding d184 by (rule split_low_field(1) [OF pf])
  have f2: "(?p div 2 ^ 208) mod 2 ^ 24 = int lf"
    unfolding d208 using lf by simp
  show ?thesis
    unfolding unpack_slot0_arith m160 tf f1 f2 tick_sign_extend [OF assms(2,3)] ..
qed

text \<open>
  Claim C2. For every field tuple with \<open>sqrtPriceX96 < 2^160\<close>, tick in
  \<open>[-2^23, 2^23 - 1]\<close> and both fees below \<open>2^24\<close>, packing the fields in the fixed
  layout and applying \<open>unpack_slot0\<close> gives back exactly the original tuple; the tick
  returned is the 24-bit tick field of the packed word, minus \<open>2^24\<close> exactly when bit 23
  of that field is set.
\<close>

theorem unpack_slot0_roundtrip:
  assumes "sq < 2 ^ 160" "- (2 ^ 23) \<le> tick" "tick < 2 ^ 23" "pf < 2 ^ 24" "lf < 2 ^ 24"
  shows "unpack_slot0 (pack_slot0 sq tick pf lf) = (int sq, tick, int pf, int lf)
       \<and> tick = (if bit (tick_field (pack_slot0 sq tick pf lf)) 23
                 then tick_field (pack_slot0 sq tick pf lf) - 2 ^ 24
                 else tick_field (pack_slot0 sq tick pf lf))"
proof
  show "unpack_slot0 (pack_slot0 sq tick pf lf) = (int sq, tick, int pf, int lf)"
    by (rule unpack_pack_slot0 [OF assms])
next
  let ?f = "tick_field (pack_slot0 sq tick pf lf)"
  have f: "?f = tick mod 2 ^ 24" by (rule tick_field_pack [OF assms(1)])
  have b: "bit ?f 23 = (2 ^ 23 \<le> ?f)" by (rule bit23_iff [OF tick_field_range])
  show "tick = (if bit ?f 23 then ?f - 2 ^ 24 else ?f)"
    unfolding b unfolding f by (rule tick_sign_extend [OF assms(2,3), symmetric])
qed

theorem unpack_slot0_roundtrip_witness:
  "(2::nat) ^ 96 < 2 ^ 160 \<and> - (2 ^ 23) \<le> (- 2 :: int) \<and> (- 2 :: int) < 2 ^ 23
   \<and> (0::nat) < 2 ^ 24
   \<and> unpack_slot0 (pack_slot0 (2 ^ 96) (- 2) 0 0) = (2 ^ 96, - 2, 0, 0)"
  using unpack_slot0_roundtrip [of "2 ^ 96" "- 2" 0 0] by simp

section \<open>The tolerance window of \<open>is_target_time\<close>\<close>

lemma hour_minute_eq:
  "((ts::int) mod 86400) div 3600 * 60 + (ts mod 3600) div 60 = minute_of_day ts"
proof -
  define s where "s = ts mod 86400"
  define h where "h = s div 3600"
  define r where "r = s mod 3600"
  have "ts mod 3600 = s mod 3600"
    unfolding s_def by (simp add: mod_mod_cancel)
  then have r: "ts mod 3600 = r" by (simp add: r_def)
  have s: "s = r + 60 * (60 * h)" by (simp add: h_def r_def)
  have "s div 60 = r div 60 + 60 * h" unfolding s by simp
  then show ?thesis
    unfolding minute_of_day_def r s_def [symmetric] h_def [symmetric] by simp
qed

lemma minute_of_day_range: "0 \<le> minute_of_day ts" "minute_of_day ts < 1440"
  by (simp_all add: minute_of_day_def pos_imp_zdiv_nonneg_iff div_less_iff_less_mult)

lemma near_target_hour_30:
  assumes "0 \<le> m" "m < 1440" "hour * 60 + minute = m"
  shows "near_target_hour hour minute 30 TARGET_HOURS = in_target_window m"
  using assms(1,2)
  unfolding TARGET_HOURS_def near_target_hour.simps Let_def assms(3) in_target_window_def
  by auto

lemma fromtimestamp_utc_valid:
  "valid_timestamp ts \<Longrightarrow>
     fromtimestamp_utc ts = Inr ((ts mod 86400) div 3600, (ts mod 3600) div 60)"
  by (simp add: valid_timestamp_def fromtimestamp_utc_def)

lemma fromtimestamp_utc_invalid:
  "\<not> valid_timestamp ts \<Longrightarrow> fromtimestamp_utc ts = Inl (fromtimestamp_error ts)"
  by (auto simp add: valid_timestamp_def fromtimestamp_utc_def)

lemma is_target_time_30:
  assumes "valid_timestamp ts"
  shows "is_target_time ts 30 = Inr (in_target_window (minute_of_day ts))"
  unfolding is_target_time_def fromtimestamp_utc_valid [OF assms]
  using near_target_hour_30 [OF minute_of_day_range hour_minute_eq, of ts]
  by simp

lemma is_target_time_invalid:
  "\<not> valid_timestamp ts \<Longrightarrow> is_target_time ts tol = Inl (fromtimestamp_error ts)"
  by (simp add: is_target_time_def fromtimestamp_utc_invalid)

lemma is_target_time_Inr_valid:
  "is_target_time ts tol = Inr b \<Longrightarrow> valid_timestamp ts"
  using is_target_time_invalid [of ts tol] by auto

lemma in_target_window_iff:
  assumes "0 \<le> minute_of_day ts" "minute_of_day ts < 1440"
  shows "in_target_window (minute_of_day ts) =
      (\<exists>a \<in> set TARGET_HOURS. minutes_from_anchor ts a \<le> 30)"
  using assms unfolding TARGET_HOURS_def in_target_window_def minutes_from_anchor_def
  by auto

lemma exact_half_hour:
  assumes "a \<in> set TARGET_HOURS"
    and "ts mod 86400 = (a * 3600 + 1800) mod 86400
       \<or> ts mod 86400 = (a * 3600 - 1800) mod 86400"
  shows "in_target_window (minute_of_day ts)"
  using assms unfolding TARGET_HOURS_def in_target_window_def minute_of_day_def
  by auto

text \<open>
  Claim C10, as amended. For a timestamp in the range of \<open>datetime\<close>, \<open>is_target_time\<close>
  with the default tolerance returns True exactly when the minute of the day (the time
  of day with its seconds dropped) is at most 30 minutes, circularly, from one of the
  anchor hours 00:00, 06:00, 12:00, 18:00. The window is closed at both ends and wraps
  across midnight: a time of day exactly 30 minutes before or after an anchor gives
  True, and a timestamp whose minute of the day is more than 30 minutes from all four
  anchors gives False.
\<close>

theorem is_target_time_window:
  assumes "valid_timestamp ts"
  shows "is_target_time ts 30 = Inr (\<exists>a \<in> set TARGET_HOURS. minutes_from_anchor ts a \<le> 30)
    \<and> (\<forall>a \<in> set TARGET_HOURS.
          ts mod 86400 = (a * 3600 + 1800) mod 86400
          \<or> ts mod 86400 = (a * 3600 - 1800) mod 86400
          \<longrightarrow> is_target_time ts 30 = Inr True)
    \<and> ((\<forall>a \<in> set TARGET_HOURS. 30 < minutes_from_anchor ts a)
          \<longrightarrow> is_target_time ts 30 = Inr False)"
proof (intro conjI ballI impI)
  show w: "is_target_time ts 30 = Inr (\<exists>a \<in> set TARGET_HOURS. minutes_from_anchor ts a \<le> 30)"
    unfolding is_target_time_30 [OF assms] in_target_window_iff [OF minute_of_day_range] ..
  show "is_target_time ts 30 = Inr True"
    if "a \<in> set TARGET_HOURS"
      and "ts mod 86400 = (a * 3600 + 1800) mod 86400
         \<or> ts mod 86400 = (a * 3600 - 1800) mod 86400"
    for a
    using exact_half_hour [OF that] by (simp add: is_target_time_30 [OF assms])
  show "is_target_time ts 30 = Inr False"
    if "\<forall>a \<in> set TARGET_HOURS. 30 < minutes_from_anchor ts a"
    unfolding w using that by fastforce
qed

text \<open>
  The witness: 23:30:00 (30 minutes before midnight) is a target time, 02:00:00 is not.
\<close>

theorem is_target_time_window_witness:
  "valid_timestamp 84600 \<and> (0::int) \<in> set TARGET_HOURS
   \<and> (84600::int) mod 86400 = (0 * 3600 - 1800) mod 86400
   \<and> is_target_time 84600 30 = Inr True
   \<and> valid_timestamp 7200
   \<and> 30 < minutes_from_anchor 7200 0 \<and> 30 < minutes_from_anchor 7200 6
   \<and> 30 < minutes_from_anchor 7200 12 \<and> 30 < minutes_from_anchor 7200 18
   \<and> is_target_time 7200 30 = Inr False"
  using is_target_time_window [of 84600] is_target_time_window [of 7200]
  by (simp add: valid_timestamp_def TARGET_HOURS_def minutes_from_anchor_def minute_of_day_def)

text \<open>
  The claim as stated fails at 00:30:01 (timestamp 1801): the time of day is strictly
  more than 30 minutes (1800 seconds) from all four anchors, and the result is True.
\<close>

theorem is_target_time_seconds_counterexample:
  "valid_timestamp 1801
   \<and> 30 * 60 < seconds_from_anchor 1801 0 \<and> 30 * 60 < seconds_from_anchor 1801 6
   \<and> 30 * 60 < seconds_from_anchor 1801 12 \<and> 30 * 60 < seconds_from_anchor 1801 18
   \<and> is_target_time 1801 30 = Inr True"
  by (simp add: valid_timestamp_def seconds_from_anchor_def is_target_time_def
      fromtimestamp_utc_def TARGET_HOURS_def)

section \<open>Overflow eviction\<close>

lemma evict_overflow_keep:
  "length timestamps \<le> m \<Longrightarrow>
     evict_overflow m (timestamps, blocks, prices) = Inr (timestamps, blocks, prices)"
  by (simp add: evict_overflow.simps)

lemma evict_overflow_drop:
  assumes "length bs = length ts" "length ps = length ts"
  shows "evict_overflow m (ts, bs, ps) =
           Inr (drop (length ts - m) ts, drop (length ts - m) bs, drop (length ts - m) ps)"
  using assms
proof (induction ts arbitrary: bs ps)
  case Nil
  then show ?case by (simp add: evict_overflow.simps)
next
  case (Cons t ts)
  then obtain b bs' p ps' where bs: "bs = b # bs'" and ps: "ps = p # ps'"
    by (cases bs; cases ps) auto
  show ?case
  proof (cases "m < Suc (length ts)")
    case True
    then have d: "Suc (length ts) - m = Suc (length ts - m)" by simp
    have "evict_overflow m (t # ts, bs, ps) = evict_overflow m (ts, bs', ps')"
      using True by (subst evict_overflow.simps) (simp add: pop0_def bs ps)
    also have "\<dots> =
        Inr (drop (length ts - m) ts, drop (length ts - m) bs', drop (length ts - m) ps')"
      using Cons.prems by (intro Cons.IH) (simp_all add: bs ps)
    finally show ?thesis by (simp add: d bs ps)
  next
    case False
    then show ?thesis by (simp add: evict_overflow.simps)
  qed
qed

lemma sorted_take_le_drop:
  "sorted (xs :: int list) \<Longrightarrow> \<forall>x \<in> set (take k xs). \<forall>y \<in> set (drop k xs). x \<le> y"
  by (metis append_take_drop_id sorted_append)

text \<open>
  Claim C9. For a store of three equal-length lists, sorted by timestamp, whose sample
  count \<open>n\<close> exceeds the limit \<open>m\<close> (120 in \<open>main\<close>), the eviction loop returns the three
  lists without their first \<open>n - m\<close> entries: exactly \<open>m\<close> samples survive, in their
  stored order, and every removed timestamp is at most every surviving one, so the
  removed samples are the oldest.
\<close>

theorem evict_overflow_removes_oldest:
  assumes "length bs = length ts" "length ps = length ts" "sorted ts" "m < length ts"
  shows "evict_overflow m (ts, bs, ps) =
           Inr (drop (length ts - m) ts, drop (length ts - m) bs, drop (length ts - m) ps)
       \<and> length (drop (length ts - m) ts) = m
       \<and> (\<forall>x \<in> set (take (length ts - m) ts). \<forall>y \<in> set (drop (length ts - m) ts). x \<le> y)"
  using evict_overflow_drop [OF assms(1,2)] sorted_take_le_drop [OF assms(3)] assms(4)
  by simp

text \<open>The scenario of the spec: limit 5, 8 samples, the 3 oldest go.\<close>

theorem evict_overflow_removes_oldest_witness:
  "length [10, 20, 30, 40, 50, 60, 70, 80 :: int] = length [1, 2, 3, 4, 5, 6, 7, 8 :: int]
   \<and> length ''abcdefgh'' = length [1, 2, 3, 4, 5, 6, 7, 8 :: int]
   \<and> sorted [1, 2, 3, 4, 5, 6, 7, 8 :: int]
   \<and> 5 < length [1, 2, 3, 4, 5, 6, 7, 8 :: int]
   \<and> evict_overflow 5 ([1, 2, 3, 4, 5, 6, 7, 8], [10, 20, 30, 40, 50, 60, 70, 80], ''abcdefgh'')
       = Inr ([4, 5, 6, 7, 8], [40, 50, 60, 70, 80], ''defgh'')"
  using evict_overflow_removes_oldest
    [of "[10, 20, 30, 40, 50, 60, 70, 80]" "[1, 2, 3, 4, 5, 6, 7, 8]" "''abcdefgh''" 5]
  by simp

section \<open>The store operations on lists of samples\<close>

lemma is_target_time_target:
  "valid_timestamp t \<Longrightarrow> is_target_time t 30 = Inr (on_target t)"
  by (simp add: is_target_time_30 on_target_def)

lemma target_sample_tuple [simp]: "target_sample (t, b, p) = on_target t"
  by (simp add: target_sample_def)

lemma map_list_insert: "map f (list_insert pos x xs) = list_insert pos (f x) (map f xs)"
  by (simp add: list_insert_def take_map drop_map)

lemma length_list_insert [simp]: "length (list_insert pos x xs) = Suc (length xs)"
  by (simp add: list_insert_def)

lemma set_list_insert [simp]: "set (list_insert pos x xs) = insert x (set xs)"
proof -
  have "set (take pos xs) \<union> set (drop pos xs) = set xs"
    by (metis append_take_drop_id set_append)
  then show ?thesis by (auto simp add: list_insert_def)
qed

lemma filter_list_insert:
  "filter P (list_insert pos x xs) =
     filter P (take pos xs) @ (if P x then [x] else []) @ filter P (drop pos xs)"
  by (simp add: list_insert_def)

lemma columns_list_insert:
  "columns (list_insert pos s z) =
     (list_insert pos (fst s) (map fst z),
      list_insert pos (fst (snd s)) (map (\<lambda>item. fst (snd item)) z),
      list_insert pos (snd (snd s)) (map (\<lambda>item. snd (snd item)) z))"
  by (simp add: columns_def map_list_insert)

lemma samples_columns:
  "columns z = (ts, bs, ps) \<Longrightarrow> samples ts bs ps = z"
  by (auto simp add: columns_def samples_def zip_map_fst_snd intro: nth_equalityI)

lemma split_targets_Inr_iff:
  "split_targets ts bs ps = Inr (T, N) \<longleftrightarrow>
     list_all valid_timestamp ts \<and> length ts \<le> length bs \<and> length ts \<le> length ps
     \<and> T = filter target_sample (samples ts bs ps)
     \<and> N = filter (\<lambda>s. \<not> target_sample s) (samples ts bs ps)"
proof (induction ts arbitrary: bs ps T N)
  case Nil
  then show ?case by (auto simp add: samples_def)
next
  case (Cons t ts)
  show ?case
  proof (cases "valid_timestamp t")
    case False
    then show ?thesis by (simp add: is_target_time_invalid)
  next
    case True
    note tt = is_target_time_target [OF True]
    show ?thesis
    proof (cases bs)
      case Nil
      then show ?thesis by (simp add: tt)
    next
      case bs: (Cons b bs')
      show ?thesis
      proof (cases ps)
        case Nil
        then show ?thesis by (simp add: tt bs)
      next
        case ps: (Cons p ps')
        show ?thesis
        proof (cases "split_targets ts bs' ps'")
          case (Inl e)
          then have "\<not> (list_all valid_timestamp ts \<and> length ts \<le> length bs' \<and> length ts \<le> length ps')"
            using Cons.IH [of bs' ps'] by auto
          then show ?thesis using Inl by (auto simp add: tt bs ps True)
        next
          case (Inr r)
          obtain T' N' where r: "r = (T', N')" by (cases r)
          from Inr r Cons.IH [of bs' ps' T' N']
          have ih: "list_all valid_timestamp ts" "length ts \<le> length bs'" "length ts \<le> length ps'"
            "T' = filter target_sample (samples ts bs' ps')"
            "N' = filter (\<lambda>s. \<not> target_sample s) (samples ts bs' ps')"
            by auto
          show ?thesis
            using ih Inr r
            by (auto simp add: tt bs ps True samples_def)
        qed
      qed
    qed
  qed
qed


lemma split_targets_valid:
  assumes "list_all valid_timestamp ts" "length ts \<le> length bs" "length ts \<le> length ps"
  shows "split_targets ts bs ps =
     Inr (filter target_sample (samples ts bs ps),
          filter (\<lambda>s. \<not> target_sample s) (samples ts bs ps))"
  using assms by (simp add: split_targets_Inr_iff)

lemma clean_nonempty:
  assumes "ts \<noteq> []" "list_all valid_timestamp ts" "length ts \<le> length bs" "length ts \<le> length ps"
  shows "clean_data_keep_targets_and_current (ts, bs, ps) =
           Inr (columns (clean_samples (samples ts bs ps)))"
  using assms(1)
  by (simp add: clean_data_keep_targets_and_current_def split_targets_valid [OF assms(2-4)]
      clean_samples_def Let_def columns_list_insert)
    (simp add: columns_def)

lemma clean_empty:
  "clean_data_keep_targets_and_current ([], bs, ps) = Inr ([], bs, ps)"
  by (simp add: clean_data_keep_targets_and_current_def)

lemma clean_Inr_nonempty:
  assumes "clean_data_keep_targets_and_current (ts, bs, ps) = Inr st'" "ts \<noteq> []"
  shows "list_all valid_timestamp ts \<and> length ts \<le> length bs \<and> length ts \<le> length ps"
proof (cases "split_targets ts bs ps")
  case (Inl e)
  then show ?thesis
    using assms by (simp add: clean_data_keep_targets_and_current_def)
next
  case (Inr r)
  then show ?thesis
    by (cases r) (simp add: split_targets_Inr_iff)
qed

lemma filter_all_take: "\<forall>x \<in> set xs. P x \<Longrightarrow> filter P (take n xs) = take n xs"
  by (meson filter_True in_set_takeD)

lemma filter_all_drop: "\<forall>x \<in> set xs. P x \<Longrightarrow> filter P (drop n xs) = drop n xs"
  by (meson filter_True in_set_dropD)

lemma filter_none_take: "\<forall>x \<in> set xs. \<not> P x \<Longrightarrow> filter P (take n xs) = []"
  by (metis (mono_tags, lifting) filter_False in_set_takeD)

lemma filter_none_drop: "\<forall>x \<in> set xs. \<not> P x \<Longrightarrow> filter P (drop n xs) = []"
  by (metis (mono_tags, lifting) filter_False in_set_dropD)

lemma filter_insert_other:
  assumes "\<forall>x \<in> set xs. P x" "\<not> P y"
  shows "filter P (list_insert pos y xs) = xs"
    and "filter (\<lambda>x. \<not> P x) (list_insert pos y xs) = [y]"
proof -
  show "filter P (list_insert pos y xs) = xs"
    using assms by (simp add: filter_list_insert filter_all_take filter_all_drop)
  have n: "\<forall>x \<in> set xs. \<not> \<not> P x" using assms(1) by simp
  show "filter (\<lambda>x. \<not> P x) (list_insert pos y xs) = [y]"
    using assms(2) filter_none_take [OF n] filter_none_drop [OF n]
    by (simp add: filter_list_insert)
qed

lemma most_recent_in_set:
  "N \<noteq> [] \<Longrightarrow> last (sort_key f N) \<in> set N"
proof -
  assume "N \<noteq> []"
  then have "sort_key f N \<noteq> []" by (metis length_0_conv length_sort)
  then have "last (sort_key f N) \<in> set (sort_key f N)" by (rule last_in_set)
  then show ?thesis by simp
qed

lemma clean_samples_idem: "clean_samples (clean_samples z) = clean_samples z"
proof (cases "filter (\<lambda>s. \<not> target_sample s) z = []")
  case True
  then have c: "clean_samples z = filter target_sample z"
    by (simp add: clean_samples_def)
  have "filter (\<lambda>s. \<not> target_sample s) (filter target_sample z) = []"
    by (simp add: filter_empty_conv)
  then show ?thesis unfolding c by (simp add: clean_samples_def)
next
  case False
  define T where "T = filter target_sample z"
  define mr where "mr = last (sort_key fst (filter (\<lambda>s. \<not> target_sample s) z))"
  define pos where "pos = find_insert_pos (fst mr) (map fst T)"
  have c: "clean_samples z = list_insert pos mr T"
    using False by (simp add: clean_samples_def Let_def T_def mr_def pos_def)
  have "mr \<in> set (filter (\<lambda>s. \<not> target_sample s) z)"
    unfolding mr_def by (rule most_recent_in_set [OF False])
  then have mr: "\<not> target_sample mr" by simp
  have T: "\<forall>x \<in> set T. target_sample x" by (simp add: T_def)
  have f1: "filter target_sample (list_insert pos mr T) = T"
    and f2: "filter (\<lambda>s. \<not> target_sample s) (list_insert pos mr T) = [mr]"
    by (rule filter_insert_other [OF T mr])+
  show ?thesis
    unfolding c
    by (simp add: clean_samples_def [of "list_insert pos mr T"] f1 f2 pos_def [symmetric])
qed

lemma set_clean_samples: "set (clean_samples z) \<subseteq> set z"
proof (cases "filter (\<lambda>s. \<not> target_sample s) z = []")
  case True
  then show ?thesis by (auto simp add: clean_samples_def)
next
  case False
  have "last (sort_key fst (filter (\<lambda>s. \<not> target_sample s) z))
      \<in> set (filter (\<lambda>s. \<not> target_sample s) z)"
    by (rule most_recent_in_set [OF False])
  then show ?thesis using False by (auto simp add: clean_samples_def Let_def)
qed

lemma columns_parallel:
  "columns z = (ts, bs, ps) \<Longrightarrow> length bs = length ts \<and> length ps = length ts"
  by (auto simp add: columns_def)

lemma set_samples_fst: "fst ` set (samples ts bs ps) \<subseteq> set ts"
  unfolding samples_def by (auto dest: set_zip_leftD)

lemma clean_twice_eq: "clean_twice st = clean_data_keep_targets_and_current st"
proof (cases "clean_data_keep_targets_and_current st")
  case (Inl e)
  then show ?thesis by (simp add: clean_twice_def)
next
  case (Inr st')
  obtain ts bs ps where st: "st = (ts, bs, ps)" by (cases st)
  have "clean_data_keep_targets_and_current st' = Inr st'"
  proof (cases "ts = []")
    case True
    then have "st' = st" using Inr by (simp add: st clean_empty)
    then show ?thesis using Inr by simp
  next
    case False
    have ok: "list_all valid_timestamp ts" "length ts \<le> length bs" "length ts \<le> length ps"
      using clean_Inr_nonempty [OF Inr [unfolded st] False] by simp_all
    define z' where "z' = clean_samples (samples ts bs ps)"
    have st': "st' = columns z'"
      using Inr clean_nonempty [OF False ok] by (simp add: st z'_def)
    obtain ts' bs' ps' where c: "columns z' = (ts', bs', ps')" by (cases "columns z'")
    have z': "samples ts' bs' ps' = z'" by (rule samples_columns [OF c])
    have len: "length ts' \<le> length bs'" "length ts' \<le> length ps'"
      using columns_parallel [OF c] by simp_all
    have "ts' = map fst z'" using c by (simp add: columns_def)
    then have "set ts' = fst ` set z'" by simp
    also have "\<dots> \<subseteq> fst ` set (samples ts bs ps)"
      unfolding z'_def using set_clean_samples by blast
    also have "\<dots> \<subseteq> set ts" by (rule set_samples_fst)
    finally have valid: "list_all valid_timestamp ts'"
      using ok(1) by (auto simp add: list_all_iff)
    show ?thesis
    proof (cases "ts' = []")
      case True
      then show ?thesis by (simp add: st' c clean_empty)
    next
      case ne: False
      have "clean_data_keep_targets_and_current (ts', bs', ps') = Inr (columns (clean_samples z'))"
        using clean_nonempty [OF ne valid len] by (simp add: z')
      also have "clean_samples z' = z'"
        unfolding z'_def by (rule clean_samples_idem)
      finally show ?thesis by (simp add: st' c)
    qed
  qed
  then show ?thesis using Inr by (simp add: clean_twice_def)
qed

lemma clean_total:
  assumes "valid_store st"
  shows "\<exists>st'. clean_data_keep_targets_and_current st = Inr st'"
proof -
  obtain ts bs ps where st: "st = (ts, bs, ps)" by (cases st)
  have ok: "list_all valid_timestamp ts" "length ts \<le> length bs" "length ts \<le> length ps"
    using assms by (simp_all add: st valid_store_def parallel_lists_def)
  show ?thesis
  proof (cases "ts = []")
    case True
    then show ?thesis by (simp add: st clean_empty)
  next
    case False
    show ?thesis unfolding st clean_nonempty [OF False ok] by blast
  qed
qed

section \<open>The store invariant\<close>

lemma non_target_valid:
  "valid_timestamp t \<Longrightarrow> (is_target_time t 30 = Inr False) = (\<not> on_target t)"
  by (simp add: is_target_time_target)

lemma target_not_non_target:
  "on_target t \<Longrightarrow> is_target_time t 30 \<noteq> Inr False"
  by (cases "valid_timestamp t") (simp_all add: is_target_time_target is_target_time_invalid)

lemma non_target_of_targets: "non_target_timestamps (filter on_target xs) = []"
  by (simp add: non_target_timestamps_def filter_empty_conv target_not_non_target)

lemma non_target_list_insert:
  "length (non_target_timestamps (list_insert pos t xs)) =
     length (non_target_timestamps xs) + (if is_target_time t 30 = Inr False then 1 else 0)"
proof -
  have "length (filter P (take pos xs)) + length (filter P (drop pos xs)) = length (filter P xs)" for P :: "int \<Rightarrow> bool"
    by (metis append_take_drop_id filter_append length_append)
  then show ?thesis
    by (simp add: non_target_timestamps_def filter_list_insert)
qed

lemma non_target_drop:
  "length (non_target_timestamps (drop k xs)) \<le> length (non_target_timestamps xs)"
proof -
  have "length (filter P (take k xs)) + length (filter P (drop k xs)) = length (filter P xs)" for P :: "int \<Rightarrow> bool"
    by (metis append_take_drop_id filter_append length_append)
  then show ?thesis
    unfolding non_target_timestamps_def by (metis le_add2)
qed

lemma sorted_insert_pos:
  "sorted xs \<Longrightarrow> sorted (list_insert (find_insert_pos t xs) t xs)"
  by (induction xs) (auto simp add: list_insert_def dest: in_set_takeD in_set_dropD)

lemma sorted_backfill_pos:
  "sorted xs \<Longrightarrow> sorted (list_insert (find_backfill_pos t xs) t xs)"
  by (induction xs) (auto simp add: list_insert_def dest: in_set_takeD in_set_dropD)

lemma find_insert_pos_le: "find_insert_pos t xs \<le> length xs"
  by (induction xs) auto

lemma map_fst_samples:
  "length ts \<le> length bs \<Longrightarrow> length ts \<le> length ps \<Longrightarrow> map fst (samples ts bs ps) = ts"
  by (simp add: samples_def map_fst_zip_take)

lemma map_fst_filter_target:
  "map fst (filter target_sample z) = filter on_target (map fst z)"
proof -
  have "target_sample = (\<lambda>x::'a sample. on_target (fst x))"
    by (rule ext) (simp add: target_sample_def)
  then show ?thesis by (simp add: filter_map comp_def)
qed

lemma keep_targets_valid:
  assumes "list_all valid_timestamp ts" "length ts \<le> length bs" "length ts \<le> length ps"
  shows "keep_targets ts bs ps = Inr (columns (filter target_sample (samples ts bs ps)))"
  using assms
proof (induction ts arbitrary: bs ps)
  case Nil
  then show ?case by (simp add: samples_def columns_def)
next
  case (Cons t ts)
  then obtain b bs' p ps' where bs: "bs = b # bs'" and ps: "ps = p # ps'"
    by (cases bs; cases ps) auto
  have v: "valid_timestamp t" using Cons.prems by simp
  have ih: "keep_targets ts bs' ps' = Inr (columns (filter target_sample (samples ts bs' ps')))"
    using Cons.prems by (intro Cons.IH) (simp_all add: bs ps)
  show ?case
    by (simp add: bs ps is_target_time_target [OF v] ih) (simp add: samples_def columns_def)
qed


lemma update_current_price_valid:
  assumes "list_all valid_timestamp ts" "length ts \<le> length bs" "length ts \<le> length ps"
  shows "update_current_price (ts, bs, ps) ct cb cp =
     Inr (columns (list_insert (find_insert_pos ct (filter on_target ts)) (ct, cb, cp)
            (filter target_sample (samples ts bs ps))))"
proof -
  have "map fst (filter target_sample (samples ts bs ps)) = filter on_target ts"
    by (simp add: map_fst_filter_target map_fst_samples assms)
  then show ?thesis
    by (simp add: update_current_price_def keep_targets_valid [OF assms] columns_list_insert)
      (simp add: columns_def Let_def)
qed

lemma fst_columns: "fst (columns z) = map fst z"
  by (simp add: columns_def)

lemma parallel_columns: "parallel_lists (columns z)"
  by (simp add: columns_def parallel_lists_def)

lemma store_inv_upsert:
  assumes "store_inv st" "valid_timestamp ct"
  shows "\<exists>st'. update_current_price st ct cb cp = Inr st' \<and> store_inv st'
            \<and> length (non_target_timestamps (fst st')) \<le> 1"
proof -
  obtain ts bs ps where st: "st = (ts, bs, ps)" by (cases st)
  have ok: "list_all valid_timestamp ts" "length ts \<le> length bs" "length ts \<le> length ps"
    and s: "sorted ts"
    using assms(1) by (simp_all add: st store_inv_def valid_store_def parallel_lists_def)
  define T where "T = filter on_target ts"
  define st' where "st' = columns (list_insert (find_insert_pos ct T) (ct, cb, cp)
            (filter target_sample (samples ts bs ps)))"
  have r: "update_current_price st ct cb cp = Inr st'"
    unfolding st st'_def T_def by (rule update_current_price_valid [OF ok])
  have f: "fst st' = list_insert (find_insert_pos ct T) ct T"
    unfolding st'_def fst_columns map_list_insert
    by (simp add: map_fst_filter_target map_fst_samples ok T_def)
  have "sorted T" unfolding T_def using s by (rule sorted_wrt_filter)
  then have 1: "sorted (fst st')" unfolding f by (rule sorted_insert_pos)
  have "list_all valid_timestamp T" using ok(1) by (simp add: T_def list_all_iff)
  then have 2: "list_all valid_timestamp (fst st')"
    unfolding f using assms(2) by (simp add: list_all_iff)
  have 3: "parallel_lists st'" unfolding st'_def by (rule parallel_columns)
  have 4: "length (non_target_timestamps (fst st')) \<le> 1"
    unfolding f non_target_list_insert T_def non_target_of_targets by simp
  show ?thesis using r 1 2 3 4 by (simp add: store_inv_def valid_store_def)
qed

lemma store_inv_clean:
  assumes "store_inv st"
  shows "\<exists>st'. clean_data_keep_targets_and_current st = Inr st' \<and> store_inv st'
            \<and> length (non_target_timestamps (fst st')) \<le> 1"
proof -
  obtain ts bs ps where st: "st = (ts, bs, ps)" by (cases st)
  have ok: "list_all valid_timestamp ts" "length ts \<le> length bs" "length ts \<le> length ps"
    and s: "sorted ts"
    using assms(1) by (simp_all add: st store_inv_def valid_store_def parallel_lists_def)
  show ?thesis
  proof (cases "ts = []")
    case True
    then show ?thesis
      using assms by (simp add: st clean_empty non_target_timestamps_def)
  next
    case False
    define z where "z = samples ts bs ps"
    define T where "T = filter on_target ts"
    have r: "clean_data_keep_targets_and_current st = Inr (columns (clean_samples z))"
      unfolding st z_def by (rule clean_nonempty [OF False ok])
    have mf: "map fst (filter target_sample z) = T"
      by (simp add: z_def T_def map_fst_filter_target map_fst_samples ok)
    have sT: "sorted T" unfolding T_def using s by (rule sorted_wrt_filter)
    have vz: "\<forall>x \<in> set z. valid_timestamp (fst x)"
      using set_samples_fst [of ts bs ps] ok(1) by (auto simp add: z_def list_all_iff)
    have "set (clean_samples z) \<subseteq> set z" by (rule set_clean_samples)
    then have 2: "list_all valid_timestamp (fst (columns (clean_samples z)))"
      using vz by (auto simp add: fst_columns list_all_iff)
    have 13: "sorted (fst (columns (clean_samples z)))
        \<and> length (non_target_timestamps (fst (columns (clean_samples z)))) \<le> 1"
    proof (cases "filter (\<lambda>s. \<not> target_sample s) z = []")
      case True
      then have "fst (columns (clean_samples z)) = T"
        by (simp add: fst_columns clean_samples_def mf)
      then show ?thesis using sT by (simp add: T_def non_target_of_targets)
    next
      case False
      define mr where "mr = last (sort_key fst (filter (\<lambda>s. \<not> target_sample s) z))"
      have "fst (columns (clean_samples z)) = list_insert (find_insert_pos (fst mr) T) (fst mr) T"
        using False by (simp add: fst_columns clean_samples_def Let_def mf map_list_insert mr_def)
      then show ?thesis
        using sorted_insert_pos [OF sT]
        by (simp add: non_target_list_insert) (simp add: T_def non_target_of_targets)
    qed
    show ?thesis
      using r 2 13 parallel_columns [of "clean_samples z"]
      by (simp add: store_inv_def valid_store_def)
  qed
qed


lemma store_inv_insert_target:
  assumes "store_inv st" "is_target_time t 30 = Inr True"
  shows "\<exists>st'. insert_target_point st t b p = Inr st' \<and> store_inv st'
            \<and> length (non_target_timestamps (fst st')) \<le> length (non_target_timestamps (fst st))"
proof -
  obtain ts bs ps where st: "st = (ts, bs, ps)" by (cases st)
  have v: "list_all valid_timestamp ts" and len: "length bs = length ts" "length ps = length ts"
    and s: "sorted ts"
    using assms(1) by (simp_all add: st store_inv_def valid_store_def parallel_lists_def)
  have vt: "valid_timestamp t" by (rule is_target_time_Inr_valid [OF assms(2)])
  define pos where "pos = find_insert_pos t ts"
  define ts1 where "ts1 = list_insert pos t ts"
  define k where "k = length ts1 - MAX_DATA_POINTS"
  have r: "insert_target_point st t b p =
      Inr (drop k ts1, drop k (list_insert pos b bs), drop k (list_insert pos p ps))"
    unfolding st insert_target_point_def Let_def prod.case pos_def [symmetric] ts1_def [symmetric] k_def
    by (rule evict_overflow_drop) (simp_all add: ts1_def len)
  have s1: "sorted ts1" unfolding ts1_def pos_def using s by (rule sorted_insert_pos)
  have v1: "list_all valid_timestamp ts1" using v vt by (simp add: ts1_def list_all_iff)
  have n1: "length (non_target_timestamps ts1) = length (non_target_timestamps ts)"
    by (simp add: ts1_def non_target_list_insert assms(2))
  have 1: "sorted (drop k ts1)" using s1 by (rule sorted_wrt_drop)
  have 2: "list_all valid_timestamp (drop k ts1)"
    using v1 by (auto simp add: list_all_iff dest: in_set_dropD)
  have 3: "length (non_target_timestamps (drop k ts1)) \<le> length (non_target_timestamps ts)"
    using non_target_drop [of k ts1] n1 by simp
  show ?thesis
    using r 1 2 3
    by (simp add: store_inv_def valid_store_def parallel_lists_def st len ts1_def)
qed

lemma store_inv_insert_historical:
  assumes "store_inv st" "is_target_time t 30 = Inr True"
  shows "store_inv (insert_historical_point st t b p)
     \<and> length (non_target_timestamps (fst (insert_historical_point st t b p)))
         \<le> length (non_target_timestamps (fst st))"
proof -
  obtain ts bs ps where st: "st = (ts, bs, ps)" by (cases st)
  have v: "list_all valid_timestamp ts" and len: "length bs = length ts" "length ps = length ts"
    and s: "sorted ts"
    using assms(1) by (simp_all add: st store_inv_def valid_store_def parallel_lists_def)
  have vt: "valid_timestamp t" by (rule is_target_time_Inr_valid [OF assms(2)])
  show ?thesis
    using sorted_backfill_pos [OF s, of t] v vt len
    by (simp add: st insert_historical_point_def Let_def store_inv_def valid_store_def
        parallel_lists_def non_target_list_insert assms(2) list_all_iff)
qed

lemma apply_op_inv:
  assumes "store_inv st" "op_ok op"
  shows "\<exists>st'. apply_op op st = Inr st' \<and> store_inv st'
     \<and> (rebuilds op \<or> length (non_target_timestamps (fst st)) \<le> 1
          \<longrightarrow> length (non_target_timestamps (fst st')) \<le> 1)"
proof (cases op)
  case (UpsertCurrent t b p)
  then show ?thesis using store_inv_upsert [OF assms(1), of t b p] assms(2) by auto
next
  case Clean
  then show ?thesis using store_inv_clean [OF assms(1)] by auto
next
  case (InsertTarget t b p)
  then show ?thesis using store_inv_insert_target [OF assms(1), of t b p] assms(2) by auto
next
  case (InsertHistorical t b p)
  then show ?thesis using store_inv_insert_historical [OF assms(1), of t b p] assms(2) by auto
qed

lemma apply_ops_inv:
  assumes "store_inv st" "\<forall>op \<in> set ops. op_ok op"
  shows "\<exists>st'. apply_ops ops st = Inr st' \<and> store_inv st'
     \<and> ((\<exists>op \<in> set ops. rebuilds op) \<or> length (non_target_timestamps (fst st)) \<le> 1
          \<longrightarrow> length (non_target_timestamps (fst st')) \<le> 1)"
  using assms
proof (induction ops arbitrary: st)
  case Nil
  then show ?case by simp
next
  case (Cons op ops)
  from apply_op_inv [OF Cons.prems(1), of op] Cons.prems(2)
  obtain st1 where 1: "apply_op op st = Inr st1" "store_inv st1"
    and n1: "rebuilds op \<or> length (non_target_timestamps (fst st)) \<le> 1
          \<longrightarrow> length (non_target_timestamps (fst st1)) \<le> 1"
    by auto
  from Cons.IH [OF 1(2)] Cons.prems(2)
  obtain st' where 2: "apply_ops ops st1 = Inr st'" "store_inv st'"
    and n2: "(\<exists>op \<in> set ops. rebuilds op) \<or> length (non_target_timestamps (fst st1)) \<le> 1
          \<longrightarrow> length (non_target_timestamps (fst st')) \<le> 1"
    by auto
  show ?case using 1 2 n1 n2 by auto
qed

text \<open>
  Claim C3, as amended. Start from a store whose three lists have one length, whose
  timestamps are sorted and in the range of \<open>datetime\<close>, and run any sequence of
  \<open>update_current_price\<close>, \<open>clean_data_keep_targets_and_current\<close> and insertions of
  target samples (the insertion of \<open>main\<close> with its eviction, and the insertion of
  \<open>collect_historical_data\<close>). The run raises nothing, the lists keep one length and the
  timestamps stay sorted. At most one stored timestamp has \<open>is_target_time\<close> false at the
  end provided that this held at the start or that the sequence holds at least one
  \<open>update_current_price\<close> or \<open>clean_data_keep_targets_and_current\<close>: an insertion of a
  target sample removes no sample that is not a target sample.
\<close>

theorem store_invariant:
  assumes "parallel_lists st" "sorted (fst st)" "list_all valid_timestamp (fst st)"
    and "\<forall>op \<in> set ops. op_ok op"
  shows "\<exists>st'. apply_ops ops st = Inr st' \<and> parallel_lists st' \<and> sorted (fst st')
     \<and> ((\<exists>op \<in> set ops. rebuilds op) \<or> length (non_target_timestamps (fst st)) \<le> 1
          \<longrightarrow> length (non_target_timestamps (fst st')) \<le> 1)"
proof -
  have "store_inv st" using assms(1-3) by (simp add: store_inv_def valid_store_def)
  from apply_ops_inv [OF this assms(4)] show ?thesis
    by (auto simp add: store_inv_def valid_store_def)
qed


text \<open>
  The witness: a target insertion at 12:00:00 and a clean, on a store with two samples
  that are not target samples (02:00:00 and 03:00:00) and one that is (06:00:00).
\<close>

theorem store_invariant_witness:
  "parallel_lists ([7200, 10800, 21600], [1, 2, 3], [10, 20, 30 :: int])
   \<and> sorted [7200, 10800, 21600 :: int]
   \<and> list_all valid_timestamp [7200, 10800, 21600]
   \<and> op_ok (InsertTarget 43200 4 (40 :: int)) \<and> op_ok (Clean :: int store_op)
   \<and> rebuilds (Clean :: int store_op)
   \<and> apply_ops [InsertTarget 43200 4 40, Clean] ([7200, 10800, 21600], [1, 2, 3], [10, 20, 30 :: int])
       = Inr ([10800, 21600, 43200], [2, 3, 4], [20, 30, 40])
   \<and> length (non_target_timestamps [10800, 21600, 43200]) \<le> 1"
proof -
  let ?st = "([7200, 10800, 21600 :: int], [1, 2, 3 :: int], [10, 20, 30 :: int])"
  let ?ops = "[InsertTarget 43200 4 (40 :: int), Clean]"
  have h1: "parallel_lists ?st" by (simp add: parallel_lists_def)
  have h2: "sorted (fst ?st)" by simp
  have h3: "list_all valid_timestamp (fst ?st)" by (simp add: valid_timestamp_def)
  have t: "is_target_time 43200 30 = Inr True" by code_simp
  have h4: "\<forall>op \<in> set ?ops. op_ok op" by (simp add: t)
  have e: "apply_ops ?ops ?st = Inr ([10800, 21600, 43200], [2, 3, 4], [20, 30, 40])"
    by code_simp
  from store_invariant [OF h1 h2 h3 h4] e
  have "length (non_target_timestamps [10800, 21600, 43200]) \<le> 1" by auto
  then show ?thesis using h1 h2 h3 h4 e by simp
qed

text \<open>
  The claim as stated fails on a sorted store of equal-length lists that holds two
  samples that are not target samples: after one insertion of a target sample both are
  still there.
\<close>

theorem store_invariant_counterexample:
  "parallel_lists ([7200, 10800], [1, 2], [10, 20 :: int])
   \<and> sorted [7200, 10800 :: int]
   \<and> is_target_time 21600 30 = Inr True
   \<and> apply_ops [InsertTarget 21600 3 30] ([7200, 10800], [1, 2], [10, 20 :: int])
       = Inr ([7200, 10800, 21600], [1, 2, 3], [10, 20, 30])
   \<and> parallel_lists ([7200, 10800, 21600], [1, 2, 3], [10, 20, 30 :: int])
   \<and> sorted [7200, 10800, 21600 :: int]
   \<and> non_target_timestamps [7200, 10800, 21600] = [7200, 10800]"
proof -
  have 1: "is_target_time 21600 30 = Inr True" by code_simp
  have 2: "apply_ops [InsertTarget 21600 3 30] ([7200, 10800], [1, 2], [10, 20 :: int])
       = Inr ([7200, 10800, 21600], [1, 2, 3], [10, 20, 30])" by code_simp
  have 3: "non_target_timestamps [7200, 10800, 21600] = [7200, 10800]" by code_simp
  show ?thesis using 1 2 3 by (simp add: parallel_lists_def)
qed

text \<open>
  Claim C4. For every store, two calls of \<open>clean_data_keep_targets_and_current\<close> in a
  row end as one call does: the same three lists, or the same exception. On three lists
  of one length with timestamps in the range of \<open>datetime\<close> the call returns a store,
  and that store is unchanged by a second call.
\<close>

theorem clean_idempotent:
  "clean_twice st = clean_data_keep_targets_and_current st
   \<and> (valid_store st \<longrightarrow>
        (\<exists>st'. clean_data_keep_targets_and_current st = Inr st'
              \<and> clean_data_keep_targets_and_current st' = Inr st'))"
proof (intro conjI impI)
  show e: "clean_twice st = clean_data_keep_targets_and_current st" by (rule clean_twice_eq)
  assume "valid_store st"
  then obtain st' where s: "clean_data_keep_targets_and_current st = Inr st'"
    using clean_total by blast
  then have "clean_data_keep_targets_and_current st' = Inr st'"
    using e by (simp add: clean_twice_def)
  with s show "\<exists>st'. clean_data_keep_targets_and_current st = Inr st'
              \<and> clean_data_keep_targets_and_current st' = Inr st'" by blast
qed

theorem clean_idempotent_witness:
  "valid_store ([7200, 10800, 21600, 43200], [1, 2, 3, 4], [10, 20, 30, 40 :: int])
   \<and> clean_data_keep_targets_and_current ([7200, 10800, 21600, 43200], [1, 2, 3, 4], [10, 20, 30, 40 :: int])
       = Inr ([10800, 21600, 43200], [2, 3, 4], [20, 30, 40])
   \<and> clean_data_keep_targets_and_current ([10800, 21600, 43200], [2, 3, 4], [20, 30, 40 :: int])
       = Inr ([10800, 21600, 43200], [2, 3, 4], [20, 30, 40])"
proof -
  let ?st = "([7200, 10800, 21600, 43200 :: int], [1, 2, 3, 4 :: int], [10, 20, 30, 40 :: int])"
  have v: "valid_store ?st"
    by (simp add: valid_store_def parallel_lists_def valid_timestamp_def)
  have e: "clean_data_keep_targets_and_current ?st = Inr ([10800, 21600, 43200], [2, 3, 4], [20, 30, 40])"
    by code_simp
  from clean_idempotent [of ?st] v e
  have "clean_data_keep_targets_and_current ([10800, 21600, 43200], [2, 3, 4], [20, 30, 40 :: int])
       = Inr ([10800, 21600, 43200], [2, 3, 4], [20, 30, 40])" by auto
  then show ?thesis using v e by simp
qed

section \<open>The retry loop\<close>

lemma retry_loop_fail_step:
  "attempt < retries \<Longrightarrow> node address slot block calls = Inl e \<Longrightarrow>
     retry_loop node address slot block retries attempt calls =
     retry_loop node address slot block retries (attempt + 1) (Suc calls)"
  by (subst retry_loop.simps) simp

lemma retry_loop_success:
  "attempt < retries \<Longrightarrow> node address slot block calls = Inr bytes \<Longrightarrow>
     retry_loop node address slot block retries attempt calls =
     (Inr (int_from_bytes_big bytes), Suc calls)"
  by (subst retry_loop.simps) simp

lemma retry_loop_done:
  "\<not> attempt < retries \<Longrightarrow>
     retry_loop node address slot block retries attempt calls =
     (Inl (retries_exhausted slot retries), calls)"
  by (subst retry_loop.simps) simp

lemma retry_loop_skip_failures:
  assumes "\<forall>j < k. attempt_fails node address slot block (calls + j)" "attempt + int k \<le> retries"
  shows "retry_loop node address slot block retries attempt calls =
         retry_loop node address slot block retries (attempt + int k) (calls + k)"
  using assms
proof (induction k arbitrary: attempt calls)
  case 0
  then show ?case by simp
next
  case (Suc k)
  from Suc.prems(1) have "attempt_fails node address slot block (calls + 0)" by blast
  then obtain e where e: "node address slot block calls = Inl e"
    by (auto simp add: attempt_fails_def)
  have lt: "attempt < retries" using Suc.prems(2) by simp
  have "\<forall>j < k. attempt_fails node address slot block (Suc calls + j)"
    using Suc.prems(1) by (metis Suc_less_eq add_Suc_shift)
  moreover have "attempt + 1 + int k \<le> retries" using Suc.prems(2) by simp
  ultimately have "retry_loop node address slot block retries (attempt + 1) (Suc calls) =
         retry_loop node address slot block retries (attempt + 1 + int k) (Suc calls + k)"
    by (rule Suc.IH)
  then show ?case
    using retry_loop_fail_step [of attempt retries node address slot block calls e] lt e
    by (simp add: add.assoc)
qed

lemma retry_loop_calls_bound:
  "snd (retry_loop node address slot block retries attempt calls)
     \<le> calls + nat (retries - attempt)"
proof (induction node address slot block retries attempt calls rule: retry_loop.induct)
  case (1 node address slot block retries attempt calls)
  show ?case
  proof (cases "attempt < retries")
    case False
    then show ?thesis by (simp add: retry_loop_done)
  next
    case True
    show ?thesis
    proof (cases "node address slot block calls")
      case (Inr bytes)
      then show ?thesis using True by (simp add: retry_loop_success)
    next
      case (Inl e)
      from "1.IH" [OF True Inl] True
        retry_loop_fail_step [of attempt retries node address slot block calls e] Inl
      show ?thesis by simp
    qed
  qed
qed

lemma foldl_big_endian:
  "foldl (\<lambda>acc b. acc * 256 + uint b) acc (bs :: 8 word list)
     = acc * 256 ^ length bs + (\<Sum>i < length bs. uint (bs ! i) * 256 ^ (length bs - Suc i))"
proof (induction bs arbitrary: acc)
  case Nil
  then show ?case by simp
next
  case (Cons b bs)
  have "(\<Sum>i < length (b # bs). uint ((b # bs) ! i) * 256 ^ (length (b # bs) - Suc i))
        = uint b * 256 ^ length bs
          + (\<Sum>i < length bs. uint (bs ! i) * 256 ^ (length bs - Suc i))"
    unfolding length_Cons by (subst sum.lessThan_Suc_shift) simp
  note split = this
  have "foldl (\<lambda>acc b. acc * 256 + uint b) acc (b # bs)
        = foldl (\<lambda>acc b. acc * 256 + uint b) (acc * 256 + uint b) bs"
    by simp
  also have "\<dots> = (acc * 256 + uint b) * 256 ^ length bs
                  + (\<Sum>i < length bs. uint (bs ! i) * 256 ^ (length bs - Suc i))"
    by (rule Cons.IH)
  also have "\<dots> = acc * 256 ^ length (b # bs)
                  + (uint b * 256 ^ length bs
                     + (\<Sum>i < length bs. uint (bs ! i) * 256 ^ (length bs - Suc i)))"
    by (simp add: algebra_simps)
  also have "\<dots> = acc * 256 ^ length (b # bs)
                  + (\<Sum>i < length (b # bs).
                       uint ((b # bs) ! i) * 256 ^ (length (b # bs) - Suc i))"
    by (simp only: split)
  finally show ?case .
qed

lemma int_from_bytes_big_sum:
  "int_from_bytes_big bs = (\<Sum>i < length bs. uint (bs ! i) * 256 ^ (length bs - Suc i))"
  by (simp add: int_from_bytes_big_def foldl_big_endian)

lemma foldl_big_endian_range:
  "0 \<le> acc \<Longrightarrow>
     0 \<le> foldl (\<lambda>acc b. acc * 256 + uint b) acc (bs :: 8 word list)
     \<and> foldl (\<lambda>acc b. acc * 256 + uint b) acc bs < (acc + 1) * 256 ^ length bs"
proof (induction bs arbitrary: acc)
  case Nil
  then show ?case by simp
next
  case (Cons b bs)
  have b: "0 \<le> uint b" "uint b < 256"
    using uint_bounded [of b] by simp_all
  then have nn: "0 \<le> acc * 256 + uint b" using Cons.prems by simp
  from Cons.IH [OF nn]
  have 1: "0 \<le> foldl (\<lambda>acc b. acc * 256 + uint b) (acc * 256 + uint b) bs"
    and 2: "foldl (\<lambda>acc b. acc * 256 + uint b) (acc * 256 + uint b) bs
              < (acc * 256 + uint b + 1) * 256 ^ length bs"
    by simp_all
  have "(acc * 256 + uint b + 1) * 256 ^ length bs \<le> ((acc + 1) * 256) * 256 ^ length bs"
    using b by (intro mult_right_mono) simp_all
  also have "\<dots> = (acc + 1) * 256 ^ length (b # bs)"
    by simp
  finally have le: "(acc * 256 + uint b + 1) * 256 ^ length bs
                      \<le> (acc + 1) * 256 ^ length (b # bs)" .
  from 2 le
  have "foldl (\<lambda>acc b. acc * 256 + uint b) (acc * 256 + uint b) bs
          < (acc + 1) * 256 ^ length (b # bs)"
    by (rule less_le_trans)
  with 1 show ?case by simp
qed

lemma int_from_bytes_big_range:
  "0 \<le> int_from_bytes_big bs \<and> int_from_bytes_big bs < 256 ^ length bs"
  using foldl_big_endian_range [of 0 bs] by (simp add: int_from_bytes_big_def)

text \<open>
  Claim C6. With the default of 5 retries, \<open>get_storage_with_retry\<close> makes at most 5
  remote calls for any address, slot and block. If the remote calls before call \<open>k\<close>
  raise and call \<open>k\<close> (one of the first five) returns the byte string \<open>bytes\<close>, the result
  is the unsigned big-endian integer of \<open>bytes\<close>, that is the sum of its bytes with byte
  \<open>i\<close> weighted by \<open>256\<close> to the number of bytes after it (a value from 0 and below
  \<open>256 ^ length bytes\<close>, so below \<open>2 ^ 256\<close> for a 32-byte word), and exactly \<open>k + 1\<close> calls
  were made. If the first five calls all raise, the function raises a RuntimeError whose
  message carries the slot and the count 5, after exactly 5 calls.
\<close>

theorem get_storage_with_retry_attempts:
  "snd (get_storage_default node address slot block) \<le> 5
   \<and> (\<forall>k < 5. (\<forall>j < k. attempt_fails node address slot block j)
         \<and> node address slot block k = Inr bytes
       \<longrightarrow> (\<exists>v. get_storage_default node address slot block = (Inr v, Suc k)
              \<and> v = (\<Sum>i < length bytes. uint (bytes ! i) * 256 ^ (length bytes - Suc i))
              \<and> 0 \<le> v \<and> v < 256 ^ length bytes))
   \<and> ((\<forall>j < 5. attempt_fails node address slot block j)
       \<longrightarrow> get_storage_default node address slot block =
             (Inl (RuntimeError (''Failed to fetch storage slot '' @ slot @ '' after 5 retries'')), 5))"
proof (intro conjI allI impI)
  show "snd (get_storage_default node address slot block) \<le> 5"
    using retry_loop_calls_bound [of node address slot block 5 0 0]
    by (simp add: get_storage_default_def get_storage_with_retry_def)
next
  fix k :: nat
  assume k: "k < 5"
    and h: "(\<forall>j < k. attempt_fails node address slot block j) \<and> node address slot block k = Inr bytes"
  have "retry_loop node address slot block 5 0 0
      = retry_loop node address slot block 5 (0 + int k) (0 + k)"
    using h k by (intro retry_loop_skip_failures) simp_all
  also have "\<dots> = (Inr (int_from_bytes_big bytes), Suc k)"
    using h k by (simp add: retry_loop_success)
  finally have r: "get_storage_default node address slot block
                     = (Inr (int_from_bytes_big bytes), Suc k)"
    by (simp add: get_storage_default_def get_storage_with_retry_def)
  show "\<exists>v. get_storage_default node address slot block = (Inr v, Suc k)
              \<and> v = (\<Sum>i < length bytes. uint (bytes ! i) * 256 ^ (length bytes - Suc i))
              \<and> 0 \<le> v \<and> v < 256 ^ length bytes"
    using r int_from_bytes_big_sum [of bytes] int_from_bytes_big_range [of bytes]
    by (intro exI [of _ "int_from_bytes_big bytes"]) simp
next
  assume h: "\<forall>j < 5. attempt_fails node address slot block j"
  have s: "str_int 5 = ''5''" by code_simp
  have "retry_loop node address slot block 5 0 0
      = retry_loop node address slot block 5 (0 + int 5) (0 + 5)"
    using h by (intro retry_loop_skip_failures) simp_all
  also have "\<dots> = (Inl (retries_exhausted slot 5), 5)"
    by (simp add: retry_loop_done)
  finally show "get_storage_default node address slot block =
             (Inl (RuntimeError (''Failed to fetch storage slot '' @ slot @ '' after 5 retries'')), 5)"
    by (simp add: get_storage_default_def get_storage_with_retry_def retries_exhausted_def s)
qed

lemma example_word_sum:
  "(\<Sum>i < length ([128] @ replicate 28 0 @ [1, 2, 3 :: 8 word]).
       uint (([128] @ replicate 28 0 @ [1, 2, 3 :: 8 word]) ! i)
         * 256 ^ (length ([128] @ replicate 28 0 @ [1, 2, 3 :: 8 word]) - Suc i))
   = 2 ^ 255 + 66051"
proof -
  have "int_from_bytes_big ([128] @ replicate 28 0 @ [1, 2, 3]) = 2 ^ 255 + 66051"
    by code_simp
  then show ?thesis by (simp only: int_from_bytes_big_sum)
qed

text \<open>
  The witness: a node that fails twice and then answers with the word
  \<open>80 00 ... 00 01 02 03\<close> gives \<open>2 ^ 255 + 66051\<close> (the first byte is the most significant
  and the value is not read as signed) at the third call, and a node that always fails
  exhausts the five attempts.
\<close>

theorem get_storage_with_retry_attempts_witness:
  "attempt_fails flaky_node ''pool'' ''0xd66b'' 100 0
   \<and> attempt_fails flaky_node ''pool'' ''0xd66b'' 100 1
   \<and> flaky_node ''pool'' ''0xd66b'' 100 2 = Inr ([128] @ replicate 28 0 @ [1, 2, 3])
   \<and> get_storage_default flaky_node ''pool'' ''0xd66b'' 100 = (Inr (2 ^ 255 + 66051), 3)
   \<and> attempt_fails dead_node ''pool'' ''0xd66b'' 100 4
   \<and> get_storage_default dead_node ''pool'' ''0xd66b'' 100 =
        (Inl (RuntimeError ''Failed to fetch storage slot 0xd66b after 5 retries''), 5)"
proof -
  let ?w = "[128] @ replicate 28 0 @ [1, 2, 3 :: 8 word]"
  have f: "\<forall>j < 2. attempt_fails flaky_node ''pool'' ''0xd66b'' 100 j"
    by (simp add: attempt_fails_def flaky_node_def)
  have r: "flaky_node ''pool'' ''0xd66b'' 100 2 = Inr ?w"
    by (simp add: flaky_node_def)
  have d: "\<forall>j. attempt_fails dead_node ''pool'' ''0xd66b'' 100 j"
    by (simp add: attempt_fails_def dead_node_def)
  have pre: "2 < (5::nat) \<and> (\<forall>j < 2. attempt_fails flaky_node ''pool'' ''0xd66b'' 100 j)
         \<and> flaky_node ''pool'' ''0xd66b'' 100 2 = Inr ?w"
    using f r by simp
  from get_storage_with_retry_attempts [of flaky_node "''pool''" "''0xd66b''" 100 ?w]
  have "2 < (5::nat) \<and> (\<forall>j < 2. attempt_fails flaky_node ''pool'' ''0xd66b'' 100 j)
         \<and> flaky_node ''pool'' ''0xd66b'' 100 2 = Inr ?w
       \<longrightarrow> (\<exists>v. get_storage_default flaky_node ''pool'' ''0xd66b'' 100 = (Inr v, Suc 2)
              \<and> v = (\<Sum>i < length ?w. uint (?w ! i) * 256 ^ (length ?w - Suc i)))"
    by blast
  from this pre
  have "\<exists>v. get_storage_default flaky_node ''pool'' ''0xd66b'' 100 = (Inr v, Suc 2)
              \<and> v = (\<Sum>i < length ?w. uint (?w ! i) * 256 ^ (length ?w - Suc i))"
    by (rule mp)
  then have 1: "get_storage_default flaky_node ''pool'' ''0xd66b'' 100
                  = (Inr (2 ^ 255 + 66051), 3)"
    unfolding example_word_sum by (auto simp add: numeral_3_eq_3)
  from get_storage_with_retry_attempts [of dead_node "''pool''" "''0xd66b''" 100] d
  have 2: "get_storage_default dead_node ''pool'' ''0xd66b'' 100 =
        (Inl (RuntimeError ''Failed to fetch storage slot 0xd66b after 5 retries''), 5)"
    by simp
  show ?thesis using f r d 1 2 by simp
qed
section \<open>Rounding to a float\<close>

lemma round_half_even_of_int [simp]: "round_half_even (of_int n) = n"
  by (simp add: round_half_even_def)

lemma round_half_even_floor: "\<lfloor>q\<rfloor> \<le> round_half_even q" "round_half_even q \<le> \<lfloor>q\<rfloor> + 1"
  by (simp_all add: round_half_even_def Let_def)

lemma round_half_even_mono:
  assumes "a \<le> b"
  shows "round_half_even a \<le> round_half_even b"
proof (cases "\<lfloor>a\<rfloor> < \<lfloor>b\<rfloor>")
  case True
  have "round_half_even a \<le> \<lfloor>a\<rfloor> + 1" by (rule round_half_even_floor)
  also have "\<dots> \<le> \<lfloor>b\<rfloor>" using True by simp
  also have "\<dots> \<le> round_half_even b" by (rule round_half_even_floor)
  finally show ?thesis .
next
  case False
  then have "\<lfloor>a\<rfloor> = \<lfloor>b\<rfloor>" using floor_mono [OF assms] by simp
  then show ?thesis
    using assms by (auto simp add: round_half_even_def Let_def)
qed

lemma round_half_even_ge: "of_int n \<le> q \<Longrightarrow> n \<le> round_half_even q"
  using round_half_even_mono [of "of_int n" q] by simp

lemma round_half_even_le: "q \<le> of_int n \<Longrightarrow> round_half_even q \<le> n"
  using round_half_even_mono [of q "of_int n"] by simp

lemma bitlen_rat_bounds:
  assumes "0 < p"
  shows "(2::rat) powi (bitlen p - 1) \<le> of_int p" "of_int p < (2::rat) powi (bitlen p)"
proof -
  have b: "1 \<le> bitlen p"
    using assms bitlen_eq_zero_iff [of p] bitlen_nonneg [of p] by linarith
  have "(of_int (2 ^ nat (bitlen p - 1)) :: rat) \<le> of_int p"
    using bitlen_bounds [OF assms] by (simp only: of_int_le_iff)
  then have "(2::rat) ^ nat (bitlen p - 1) \<le> of_int p" by simp
  then show "(2::rat) powi (bitlen p - 1) \<le> of_int p"
    using b by (simp add: power_int_nonneg_exp)
  have "(of_int p :: rat) < of_int (2 ^ nat (bitlen p))"
    using bitlen_bounds [OF assms] by (simp only: of_int_less_iff)
  then have "(of_int p :: rat) < 2 ^ nat (bitlen p)" by simp
  then show "of_int p < (2::rat) powi (bitlen p)"
    using b by (simp add: power_int_nonneg_exp)
qed

lemma ilog2_bounds:
  assumes "0 < x"
  shows "2 powi (ilog2 x) \<le> x" "x < 2 powi (ilog2 x + 1)"
proof -
  obtain p q where pq: "quotient_of x = (p, q)" by (cases "quotient_of x")
  have q: "0 < q" using pq by (rule quotient_of_denom_pos)
  have x: "x = of_int p / of_int q" using pq by (rule quotient_of_div)
  have p: "0 < p" using assms q unfolding x by (simp add: zero_less_divide_iff)
  define d where "d = bitlen p - bitlen q"
  have bp: "1 \<le> bitlen p" using p bitlen_eq_zero_iff [of p] bitlen_nonneg [of p] by linarith
  have bq: "1 \<le> bitlen q" using q bitlen_eq_zero_iff [of q] bitlen_nonneg [of q] by linarith
  have p1: "(2::rat) powi (bitlen p - 1) \<le> of_int p" and p2: "of_int p < (2::rat) powi (bitlen p)"
    using bitlen_rat_bounds [OF p] by simp_all
  have q1: "(2::rat) powi (bitlen q - 1) \<le> of_int q" and q2: "of_int q < (2::rat) powi (bitlen q)"
    using bitlen_rat_bounds [OF q] by simp_all
  have up: "x < 2 powi (d + 1)"
  proof -
    have "x < 2 powi (bitlen p) / of_int q"
      unfolding x using p2 q by (simp add: divide_strict_right_mono)
    also have "\<dots> \<le> 2 powi (bitlen p) / 2 powi (bitlen q - 1)"
      using q1 by (simp add: frac_le)
    also have "\<dots> = 2 powi (d + 1)"
      by (simp add: d_def power_int_diff [symmetric] algebra_simps)
    finally show ?thesis .
  qed
  have lo: "2 powi (d - 1) \<le> x"
  proof -
    have "(2::rat) powi (d - 1) = 2 powi (bitlen p - 1) / 2 powi (bitlen q)"
      by (simp add: d_def power_int_diff [symmetric] algebra_simps)
    also have "\<dots> \<le> of_int p / 2 powi (bitlen q)"
      using p1 by (simp add: divide_right_mono)
    also have "\<dots> \<le> of_int p / of_int q"
      using q2 q p by (simp add: frac_le)
    finally show ?thesis unfolding x .
  qed
  have e: "ilog2 x = (if 2 powi d \<le> x then d else d - 1)"
    by (simp add: ilog2_def pq d_def)
  show "2 powi (ilog2 x) \<le> x" using lo by (simp add: e)
  show "x < 2 powi (ilog2 x + 1)" using up by (simp add: e)
qed


lemma two_powi_split: "of_int (2 ^ n) * 2 powi k = (2::rat) powi (int n + k)"
  by (simp add: power_int_add)

lemma ilog2_ge:
  assumes "0 < x" "2 powi k \<le> x"
  shows "k \<le> ilog2 x"
proof -
  have "(2::rat) powi k < 2 powi (ilog2 x + 1)"
    using assms(2) ilog2_bounds(2) [OF assms(1)] by (rule le_less_trans)
  then have "\<not> ilog2 x + 1 \<le> k"
    using power_int_increasing [of "ilog2 x + 1" k "2::rat"] by auto
  then show ?thesis by simp
qed

lemma ilog2_mono:
  assumes "0 < x" "x \<le> y"
  shows "ilog2 x \<le> ilog2 y"
proof -
  have "0 < y" using assms by simp
  moreover have "2 powi (ilog2 x) \<le> y"
    using ilog2_bounds(1) [OF assms(1)] assms(2) by simp
  ultimately show ?thesis by (rule ilog2_ge)
qed

lemma ulp_of_pos: "0 < ulp_of x"
  by (simp add: ulp_of_def)

lemma round_double_pos:
  "0 < x \<Longrightarrow> round_double x = of_int (round_half_even (x / ulp_of x)) * ulp_of x"
  by (simp add: round_double_def Let_def ulp_of_def)

lemma round_double_nonneg: "0 \<le> x \<Longrightarrow> 0 \<le> round_double x"
proof (cases "x = 0")
  case True
  then show ?thesis by (simp add: round_double_def)
next
  case False
  assume "0 \<le> x"
  with False have x: "0 < x" by simp
  have "0 \<le> x / ulp_of x" using x ulp_of_pos [of x] by simp
  then have "0 \<le> round_half_even (x / ulp_of x)"
    using round_half_even_ge [of 0 "x / ulp_of x"] by simp
  then show ?thesis
    using ulp_of_pos [of x] by (simp add: round_double_pos [OF x])
qed

lemma round_double_mono_pos:
  assumes "0 < x" "x \<le> y"
  shows "round_double x \<le> round_double y"
proof -
  have y: "0 < y" using assms by simp
  define ex where "ex = max (ilog2 x) (- 1022)"
  define ey where "ey = max (ilog2 y) (- 1022)"
  have ux: "ulp_of x = 2 powi (ex - 52)" using assms(1) by (simp add: ulp_of_def ex_def)
  have uy: "ulp_of y = 2 powi (ey - 52)" using y by (simp add: ulp_of_def ey_def)
  have le: "ex \<le> ey" using ilog2_mono [OF assms] by (simp add: ex_def ey_def)
  show ?thesis
  proof (cases "ex = ey")
    case True
    then have u: "ulp_of x = ulp_of y" by (simp add: ux uy)
    have "x / ulp_of y \<le> y / ulp_of y"
      using assms(2) ulp_of_pos [of y] by (simp add: divide_right_mono)
    then have "round_half_even (x / ulp_of y) \<le> round_half_even (y / ulp_of y)"
      by (rule round_half_even_mono)
    then show ?thesis
      using ulp_of_pos [of y]
      by (simp add: round_double_pos [OF assms(1)] round_double_pos [OF y] u)
  next
    case False
    then have lt: "ex + 1 \<le> ey" using le by simp
    have eyl: "ey = ilog2 y" using lt by (simp add: ey_def ex_def)
    have "x < 2 powi (ilog2 x + 1)" by (rule ilog2_bounds(2) [OF assms(1)])
    also have "\<dots> \<le> 2 powi (ex + 1)"
      by (rule power_int_increasing) (simp_all add: ex_def)
    finally have "x / ulp_of x \<le> 2 powi (ex + 1) / 2 powi (ex - 52)"
      unfolding ux by (simp add: divide_right_mono)
    also have "\<dots> = of_int (2 ^ 53)"
      by (simp add: power_int_diff [symmetric])
    finally have "round_half_even (x / ulp_of x) \<le> 2 ^ 53" by (rule round_half_even_le)
    then have "(of_int (round_half_even (x / ulp_of x)) :: rat) \<le> of_int (2 ^ 53)"
      by (simp only: of_int_le_iff)
    then have "round_double x \<le> of_int (2 ^ 53) * 2 powi (ex - 52)"
      unfolding round_double_pos [OF assms(1)] ux
      by (rule mult_right_mono) simp
    also have "\<dots> = 2 powi (ex + 1)"
      unfolding two_powi_split by (simp add: add.commute)
    also have "\<dots> \<le> 2 powi ey" by (rule power_int_increasing) (simp_all add: lt)
    also have "\<dots> \<le> round_double y"
    proof -
      have "(of_int (2 ^ 52) :: rat) = 2 powi ey / 2 powi (ey - 52)"
        by (simp add: power_int_diff [symmetric])
      also have "\<dots> \<le> y / ulp_of y"
        unfolding uy using ilog2_bounds(1) [OF y] by (simp add: divide_right_mono eyl)
      finally have "2 ^ 52 \<le> round_half_even (y / ulp_of y)" by (rule round_half_even_ge)
      then have "(of_int (2 ^ 52) :: rat) \<le> of_int (round_half_even (y / ulp_of y))"
        by (simp only: of_int_le_iff)
      then have "of_int (2 ^ 52) * 2 powi (ey - 52) \<le> round_double y"
        unfolding round_double_pos [OF y] uy
        by (rule mult_right_mono) simp
      moreover have "of_int (2 ^ 52) * 2 powi (ey - 52) = (2::rat) powi ey"
        unfolding two_powi_split by (simp add: add.commute)
      ultimately show ?thesis by simp
    qed
    finally show ?thesis .
  qed
qed

lemma round_double_mono:
  assumes "0 \<le> x" "x \<le> y"
  shows "round_double x \<le> round_double y"
proof (cases "x = 0")
  case True
  then show ?thesis
    using round_double_nonneg [of y] assms by (simp add: round_double_def)
next
  case False
  then have "0 < x" using assms(1) by simp
  then show ?thesis using assms(2) by (rule round_double_mono_pos)
qed


lemma ilog2_eqI:
  assumes "0 < x" "2 powi e \<le> x" "x < 2 powi (e + 1)"
  shows "ilog2 x = e"
proof -
  have 1: "e \<le> ilog2 x" by (rule ilog2_ge [OF assms(1,2)])
  have "(2::rat) powi (ilog2 x) < 2 powi (e + 1)"
    using ilog2_bounds(1) [OF assms(1)] assms(3) by (rule le_less_trans)
  then have "\<not> e + 1 \<le> ilog2 x"
    using power_int_increasing [of "e + 1" "ilog2 x" "2::rat"] by auto
  with 1 show ?thesis by simp
qed

lemma ilog2_times_pow2:
  assumes "0 < x"
  shows "ilog2 (x * 2 powi k) = ilog2 x + k"
proof (rule ilog2_eqI)
  show "0 < x * 2 powi k" using assms by simp
  show "2 powi (ilog2 x + k) \<le> x * 2 powi k"
    using ilog2_bounds(1) [OF assms] by (simp add: power_int_add)
  have "x * 2 powi k < 2 powi (ilog2 x + 1) * 2 powi k"
    using ilog2_bounds(2) [OF assms] by simp
  then show "x * 2 powi k < 2 powi (ilog2 x + k + 1)"
    by (simp add: power_int_add algebra_simps)
qed

lemma ilog2_of_int_range:
  assumes "0 < m" "m < 2 ^ 53"
  shows "0 \<le> ilog2 (of_int m)" "ilog2 (of_int m) \<le> 52"
proof -
  have p: "(0::rat) < of_int m" using assms(1) by simp
  have "(2::rat) powi 0 \<le> of_int m" using assms(1) by simp
  then show "0 \<le> ilog2 (of_int m)" by (rule ilog2_ge [OF p])
  have "(of_int m :: rat) < of_int (2 ^ 53)" using assms(2) by (simp only: of_int_less_iff)
  then have "(2::rat) powi (ilog2 (of_int m)) < 2 powi 53"
    using ilog2_bounds(1) [OF p] by simp
  then have "\<not> 53 \<le> ilog2 (of_int m)"
    using power_int_increasing [of 53 "ilog2 (of_int m)" "2::rat"] by auto
  then show "ilog2 (of_int m) \<le> 52" by simp
qed

lemma round_double_dyadic_pos:
  assumes "0 < m" "m < 2 ^ 53" "- 1074 \<le> k"
  shows "round_double (of_int m * 2 powi k) = of_int m * 2 powi k"
proof -
  let ?x = "of_int m * 2 powi k :: rat"
  have p: "(0::rat) < of_int m" using assms(1) by simp
  have x: "0 < ?x" using p by simp
  define a where "a = ilog2 (of_int m)"
  have a: "0 \<le> a" "a \<le> 52" unfolding a_def by (rule ilog2_of_int_range [OF assms(1,2)])+
  have e: "ilog2 ?x = a + k" unfolding a_def by (rule ilog2_times_pow2 [OF p])
  define ee where "ee = max (a + k) (- 1022)"
  define n where "n = nat (k - ee + 52)"
  have n: "int n = k - ee + 52" using a assms(3) by (auto simp add: n_def ee_def max_def)
  have u: "ulp_of ?x = 2 powi (ee - 52)" using x by (simp add: ulp_of_def e ee_def)
  have "?x / ulp_of ?x = of_int m * (2 powi k / 2 powi (ee - 52))" by (simp add: u)
  also have "2 powi k / 2 powi (ee - 52) = (2::rat) powi (int n)"
  proof -
    have "k - (ee - 52) = int n" by (simp add: n)
    then show ?thesis by (simp add: power_int_diff [symmetric])
  qed
  also have "of_int m * (2::rat) powi (int n) = of_int (m * 2 ^ n)" by simp
  finally have q: "?x / ulp_of ?x = of_int (m * 2 ^ n)" .
  have "round_double ?x = of_int (round_half_even (?x / ulp_of ?x)) * ulp_of ?x"
    by (rule round_double_pos [OF x])
  also have "\<dots> = of_int (m * 2 ^ n) * ulp_of ?x"
    by (simp only: q round_half_even_of_int)
  also have "\<dots> = ?x / ulp_of ?x * ulp_of ?x" by (simp only: q)
  also have "\<dots> = ?x" using ulp_of_pos [of ?x] by simp
  finally show ?thesis .
qed

lemma round_double_minus: "round_double (- x) = - round_double x"
  by (simp add: round_double_def Let_def)

lemma round_double_dyadic:
  assumes "\<bar>m\<bar> < 2 ^ 53" "- 1074 \<le> k"
  shows "round_double (of_int m * 2 powi k) = of_int m * 2 powi k"
proof (cases "m = 0")
  case True
  then show ?thesis by (simp add: round_double_def)
next
  case False
  show ?thesis
  proof (cases "0 < m")
    case True
    then show ?thesis using assms by (intro round_double_dyadic_pos) simp_all
  next
    case neg: False
    then have "0 < - m" "- m < 2 ^ 53" using False assms(1) by simp_all
    from round_double_dyadic_pos [OF this assms(2)]
    have "round_double (- (of_int m * 2 powi k)) = - (of_int m * 2 powi k)" by simp
    then show ?thesis by (simp add: round_double_minus)
  qed
qed

lemma round_double_of_int:
  "\<bar>m\<bar> < 2 ^ 53 \<Longrightarrow> round_double (of_int m) = of_int m"
  using round_double_dyadic [of m 0] by simp

lemma round_double_half:
  "\<bar>m\<bar> < 2 ^ 53 \<Longrightarrow> round_double (of_int m / 2) = of_int m / 2"
  using round_double_dyadic [of m "- 1"] by (simp add: power_int_minus field_simps)

lemma round_double_pow2:
  "- 1074 \<le> k \<Longrightarrow> round_double (2 powi k) = 2 powi k"
  using round_double_dyadic [of 1 k] by simp

lemma round_double_abs_le:
  assumes "\<bar>x\<bar> \<le> b"
  shows "\<bar>round_double x\<bar> \<le> round_double b"
proof (cases "0 \<le> x")
  case True
  then have "round_double x \<le> round_double b" using assms by (intro round_double_mono) simp_all
  then show ?thesis using round_double_nonneg [OF True] by simp
next
  case False
  then have n: "0 \<le> - x" by simp
  have "round_double (- x) \<le> round_double b" using assms n by (intro round_double_mono) simp_all
  then show ?thesis using round_double_nonneg [OF n] by (simp add: round_double_minus)
qed


lemma round_half_even_eqI:
  assumes "\<bar>q - of_int m\<bar> < 1 / 2"
  shows "round_half_even q = m"
proof (cases "of_int m \<le> q")
  case True
  then have "\<lfloor>q\<rfloor> = m" using assms by (intro floor_unique) simp_all
  then show ?thesis using assms True by (simp add: round_half_even_def Let_def)
next
  case False
  then have "\<lfloor>q\<rfloor> = m - 1" using assms by (intro floor_unique) simp_all
  then show ?thesis using assms False by (simp add: round_half_even_def Let_def)
qed

lemma round_double_eqI:
  assumes "0 < x" "2 powi e \<le> x" "x < 2 powi (e + 1)" "- 1022 \<le> e"
    and "\<bar>x / 2 powi (e - 52) - of_int m\<bar> < 1 / 2"
  shows "round_double x = of_int m * 2 powi (e - 52)"
proof -
  have "ilog2 x = e" by (rule ilog2_eqI [OF assms(1-3)])
  then have u: "ulp_of x = 2 powi (e - 52)" using assms(1,4) by (simp add: ulp_of_def)
  show ?thesis
    unfolding round_double_pos [OF assms(1)] u round_half_even_eqI [OF assms(5)] ..
qed

lemma no_float_overflow:
  assumes "\<bar>x\<bar> \<le> 2 powi k" "- 1074 \<le> k" "k < 1024"
  shows "\<not> float_overflow (round_double x)"
proof -
  have "\<bar>round_double x\<bar> \<le> round_double (2 powi k)" by (rule round_double_abs_le [OF assms(1)])
  also have "\<dots> = 2 powi k" by (rule round_double_pow2 [OF assms(2)])
  also have "\<dots> < 2 powi 1024" using assms(3) by (intro power_int_strict_increasing) simp_all
  finally show ?thesis by (simp add: float_overflow_def)
qed

lemma int_truediv_value:
  assumes "b \<noteq> 0" "\<bar>of_int a / of_int b :: rat\<bar> \<le> 2 powi k" "- 1074 \<le> k" "k < 1024"
  shows "int_truediv a b = Inr (round_double (of_int a / of_int b))"
  using assms(1) no_float_overflow [OF assms(2-4)] by (simp add: int_truediv_def)

lemma of_int_abs_bound:
  "\<bar>t\<bar> < 2 ^ 53 \<Longrightarrow> \<bar>of_int t :: rat\<bar> \<le> 2 powi 53"
proof -
  assume "\<bar>t\<bar> < 2 ^ 53"
  then have "(of_int \<bar>t\<bar> :: rat) \<le> of_int (2 ^ 53)" by (simp only: of_int_le_iff)
  then show ?thesis by simp
qed

lemma int_truediv_half:
  assumes "\<bar>t\<bar> < 2 ^ 53"
  shows "int_truediv t 2 = Inr (of_int t / 2)"
proof -
  have "\<bar>of_int t / of_int 2 :: rat\<bar> \<le> 2 powi 53"
    using of_int_abs_bound [OF assms] by simp
  then have "int_truediv t 2 = Inr (round_double (of_int t / of_int 2))"
    by (rule int_truediv_value [where k = 53, rotated]) simp_all
  then show ?thesis by (simp add: round_double_half [OF assms])
qed

lemma int_float_truediv_value:
  assumes "\<bar>t\<bar> < 2 ^ 53" "y \<noteq> 0" "\<bar>of_int t / y\<bar> \<le> 2 powi k" "- 1074 \<le> k" "k < 1024"
  shows "int_float_truediv t y = Inr (round_double (of_int t / y))"
proof -
  have x: "round_double (of_int t) = of_int t" by (rule round_double_of_int [OF assms(1)])
  have "\<not> float_overflow (round_double (of_int t))"
    by (rule no_float_overflow [OF of_int_abs_bound [OF assms(1)]]) simp_all
  then show ?thesis
    using assms(2) no_float_overflow [OF assms(3-5)]
    by (simp add: int_float_truediv_def Let_def x)
qed

lemma int_float_truediv_two:
  assumes "\<bar>t\<bar> < 2 ^ 53"
  shows "int_float_truediv t 2 = Inr (of_int t / 2)"
proof -
  have "\<bar>of_int t / 2 :: rat\<bar> \<le> 2 powi 53"
    using of_int_abs_bound [OF assms] by simp
  then have "int_float_truediv t 2 = Inr (round_double (of_int t / 2))"
    by (rule int_float_truediv_value [where k = 53, OF assms, rotated]) simp_all
  then show ?thesis by (simp add: round_double_half [OF assms])
qed

lemma int_of_float_half: "int_of_float (of_int t / 2) = trunc_div t 2"
proof (cases "0 \<le> t")
  case True
  have "\<lfloor>(of_int t / of_int 2 :: rat)\<rfloor> = t div 2" by (rule floor_divide_of_int_eq)
  then show ?thesis using True by (simp add: int_of_float_def trunc_div_def sgn_if)
next
  case False
  have "\<lfloor>(of_int (- t) / of_int 2 :: rat)\<rfloor> = (- t) div 2" by (rule floor_divide_of_int_eq)
  then show ?thesis using False by (simp add: int_of_float_def trunc_div_def sgn_if)
qed

lemma day_blocks: "int_truediv (24 * 60 * 60) 2 = Inr 43200"
  using int_truediv_half [of 86400] by simp

lemma int_of_float_of_int [simp]: "int_of_float (of_int n) = n"
  by (simp add: int_of_float_def)

lemma int_of_float_43200: "int_of_float 43200 = 43200"
  using int_of_float_of_int [of 43200] by simp

lemma int_truediv_exact:
  assumes "b \<noteq> 0" "(of_int a / of_int b :: rat) = of_int m" "\<bar>m\<bar> < 2 ^ 53"
  shows "int_truediv a b = Inr (of_int m)"
proof -
  have "\<bar>of_int a / of_int b :: rat\<bar> \<le> 2 powi 53"
    unfolding assms(2) by (rule of_int_abs_bound [OF assms(3)])
  then have "int_truediv a b = Inr (round_double (of_int a / of_int b))"
    by (rule int_truediv_value [OF assms(1)]) simp_all
  then show ?thesis by (simp only: assms(2) round_double_of_int [OF assms(3)])
qed

section \<open>Monotonicity of \<open>sqrtPriceX96_to_price\<close>\<close>

lemma round_double_2_128: "round_double (2 ^ 128) = 2 ^ 128"
  using round_double_pow2 [of 128] by simp

lemma price_at_2_96: "sqrtPriceX96_to_price (2 ^ 96) = Inr 1"
  unfolding sqrtPriceX96_to_price_def Q192_def
  using int_truediv_exact [of "2 ^ 192" "(2 ^ 96) ^ 2" 1] by simp

lemma price_at_2_97: "sqrtPriceX96_to_price (2 ^ 97) = Inr 4"
  unfolding sqrtPriceX96_to_price_def Q192_def
  using int_truediv_exact [of "2 ^ 192" "(2 ^ 97) ^ 2" 4] by simp

lemma price_at_2_96_plus_1: "sqrtPriceX96_to_price (2 ^ 96 + 1) = Inr 1"
proof -
  let ?x = "of_int ((2 ^ 96 + 1) ^ 2) / of_int (2 ^ 192) :: rat"
  have "round_double ?x = of_int (2 ^ 52) * 2 powi (0 - 52)"
    by (rule round_double_eqI) (simp_all add: power_int_minus)
  then have r: "round_double ?x = 1" by (simp add: power_int_minus)
  have "\<bar>?x\<bar> \<le> 2 powi 1" by simp
  then have "int_truediv ((2 ^ 96 + 1) ^ 2) (2 ^ 192) = Inr (round_double ?x)"
    by (rule int_truediv_value [rotated]) simp_all
  then show ?thesis
    unfolding sqrtPriceX96_to_price_def Q192_def by (simp only: r)
qed

lemma price_quotient_bound:
  assumes "0 \<le> sq" "sq < 2 ^ 160"
  shows "0 \<le> (of_int (sq ^ 2) / of_int Q192 :: rat)" "(of_int (sq ^ 2) / of_int Q192 :: rat) \<le> 2 ^ 128"
proof -
  show "0 \<le> (of_int (sq ^ 2) / of_int Q192 :: rat)" by (simp add: Q192_def)
  have "sq ^ 2 \<le> (2 ^ 160) ^ 2" using assms by (intro power_mono) simp_all
  then have "(of_int (sq ^ 2) :: rat) \<le> of_int ((2 ^ 160) ^ 2)" by (simp only: of_int_le_iff)
  then have "(of_int (sq ^ 2) :: rat) \<le> 2 ^ 128 * of_int Q192" by (simp add: Q192_def)
  then show "(of_int (sq ^ 2) / of_int Q192 :: rat) \<le> 2 ^ 128"
    by (simp add: Q192_def pos_divide_le_eq)
qed

lemma sqrtPriceX96_to_price_value:
  assumes "0 \<le> sq" "sq < 2 ^ 160"
  shows "sqrtPriceX96_to_price sq = Inr (round_double (of_int (sq ^ 2) / of_int Q192))"
proof -
  let ?x = "of_int (sq ^ 2) / of_int Q192 :: rat"
  have r0: "0 \<le> round_double ?x"
    by (rule round_double_nonneg) (rule price_quotient_bound(1) [OF assms])
  have "round_double ?x \<le> round_double (2 ^ 128)"
    by (rule round_double_mono) (rule price_quotient_bound [OF assms])+
  then have r1: "round_double ?x \<le> 2 ^ 128" unfolding round_double_2_128 .
  have "(2::rat) ^ 128 < 2 ^ 1024" by simp
  with r0 r1 have "\<bar>round_double ?x\<bar> < 2 ^ 1024" by linarith
  then have o: "\<not> float_overflow (round_double ?x)"
    by (simp only: float_overflow_def not_le)
  have q: "Q192 \<noteq> 0" by (simp add: Q192_def)
  show ?thesis
    unfolding sqrtPriceX96_to_price_def int_truediv_def Let_def using o q by (simp only: if_False)
qed

text \<open>
  Claim C7, as amended. \<open>sqrtPriceX96_to_price\<close> is non-decreasing: for integers
  \<open>0 \<le> a < b < 2^160\<close> both calls return a float and the price of \<open>a\<close> is at most the
  price of \<open>b\<close>. The exact quotients \<open>a^2 / 2^192\<close> and \<open>b^2 / 2^192\<close> are strictly
  ordered; the results are these quotients rounded to a float, and the rounding can
  make them equal.
\<close>

theorem sqrtPriceX96_to_price_monotone:
  assumes "0 \<le> a" "a < b" "b < 2 ^ 160"
  shows "\<exists>pa pb. sqrtPriceX96_to_price a = Inr pa \<and> sqrtPriceX96_to_price b = Inr pb
           \<and> pa \<le> pb
           \<and> (of_int (a ^ 2) / of_int Q192 :: rat) < of_int (b ^ 2) / of_int Q192"
proof -
  have a: "a < 2 ^ 160" and b: "0 \<le> b" using assms by simp_all
  have "a ^ 2 < b ^ 2" using assms by (intro power_strict_mono) simp_all
  then have "(of_int (a ^ 2) :: rat) < of_int (b ^ 2)" by (simp only: of_int_less_iff)
  moreover have "(0::rat) < of_int Q192" by (simp add: Q192_def)
  ultimately have lt: "(of_int (a ^ 2) / of_int Q192 :: rat) < of_int (b ^ 2) / of_int Q192"
    by (rule divide_strict_right_mono)
  have "round_double (of_int (a ^ 2) / of_int Q192) \<le> round_double (of_int (b ^ 2) / of_int Q192)"
    using price_quotient_bound(1) [OF assms(1) a] lt by (intro round_double_mono) simp_all
  then show ?thesis
    unfolding sqrtPriceX96_to_price_value [OF assms(1) a] sqrtPriceX96_to_price_value [OF b assms(3)]
    using lt by blast
qed

text \<open>The witness: \<open>2^96\<close> gives the price 1.0 and \<open>2^97\<close> the price 4.0.\<close>

theorem sqrtPriceX96_to_price_monotone_witness:
  "(0::int) \<le> 2 ^ 96 \<and> (2::int) ^ 96 < 2 ^ 97 \<and> (2::int) ^ 97 < 2 ^ 160
   \<and> sqrtPriceX96_to_price (2 ^ 96) = Inr 1 \<and> sqrtPriceX96_to_price (2 ^ 97) = Inr 4
   \<and> (1::rat) \<le> 4"
proof -
  note 1 = price_at_2_96 and 2 = price_at_2_97
  from sqrtPriceX96_to_price_monotone [of "2 ^ 96" "2 ^ 97"] 1 2
  have "(1::rat) \<le> 4" by simp
  then show ?thesis using 1 2 by simp
qed

text \<open>
  The claim as stated (strictly increasing) fails at \<open>a = 2^96\<close>, \<open>b = 2^96 + 1\<close>:
  \<open>b^2 / 2^192 = 1 + 2^-95 + 2^-192\<close> rounds to the float 1.0, the price of \<open>a\<close>.
\<close>

theorem sqrtPriceX96_to_price_strict_counterexample:
  "(0::int) \<le> 2 ^ 96 \<and> (2::int) ^ 96 < 2 ^ 96 + 1 \<and> (2::int) ^ 96 + 1 < 2 ^ 160
   \<and> sqrtPriceX96_to_price (2 ^ 96) = Inr 1
   \<and> sqrtPriceX96_to_price (2 ^ 96 + 1) = Inr 1"
  using price_at_2_96 price_at_2_96_plus_1 by simp

section \<open>The block estimator\<close>

lemma estimate_read_fails:
  assumes "getBlock (max 1 (cb - 43200)) = Inl e" "\<bar>cts - target\<bar> < 2 ^ 53"
  shows "estimate_block_from_timestamp getBlock target cb cts
         = Inr (max 1 (cb - trunc_div (cts - target) 2))"
proof -
  have "estimate_try getBlock target cb cts = Inl e"
    unfolding estimate_try_def day_blocks
    by (simp only: sum.case Let_def int_of_float_43200 assms(1))
  then show ?thesis
    unfolding estimate_block_from_timestamp_def estimate_except_def Let_def
    by (simp only: sum.case int_truediv_half [OF assms(2)] int_of_float_half)
qed

lemma estimate_fallback:
  assumes "getBlock (max 1 (cb - 43200)) = Inr rts"
    and "cb - max 1 (cb - 43200) \<le> 0 \<or> cts - rts \<le> 0"
    and "\<bar>cts - target\<bar> < 2 ^ 53"
  shows "estimate_block_from_timestamp getBlock target cb cts
         = Inr (max 1 (cb - trunc_div (cts - target) 2))"
proof -
  have c: "\<not> (cb - max 1 (cb - 43200) > 0 \<and> cts - rts > 0)" using assms(2) by auto
  have "estimate_try getBlock target cb cts = Inr (max 1 (cb - trunc_div (cts - target) 2))"
    unfolding estimate_try_def day_blocks
    by (simp only: sum.case Let_def int_of_float_43200 assms(1) c simp_thms if_False
        int_float_truediv_two [OF assms(3)] int_of_float_half)
  then show ?thesis by (simp add: estimate_block_from_timestamp_def)
qed

lemma seconds_per_block_bounds:
  assumes "0 < bd" "bd \<le> 43200" "0 < td" "td < 2 ^ 53"
  shows "2 powi (- 16) \<le> (of_int td / of_int bd :: rat)" "(of_int td / of_int bd :: rat) \<le> 2 powi 53"
proof -
  have bd: "(1::rat) \<le> of_int bd" "(of_int bd :: rat) \<le> 43200" using assms(1,2) by simp_all
  have td: "(1::rat) \<le> of_int td" using assms(3) by simp
  have "(of_int td :: rat) \<le> of_int (2 ^ 53)" using assms(4) by (simp only: of_int_le_iff)
  then have td2: "(of_int td :: rat) \<le> 2 powi 53" by simp
  have "(2::rat) powi (- 16) \<le> 1 / 43200" by (simp add: power_int_minus)
  also have "\<dots> \<le> 1 / of_int bd" using bd by (intro divide_left_mono) simp_all
  also have "\<dots> \<le> of_int td / of_int bd" using td bd by (intro divide_right_mono) simp_all
  finally show "2 powi (- 16) \<le> (of_int td / of_int bd :: rat)" .
  have "(of_int td / of_int bd :: rat) \<le> of_int td / 1"
    using bd td by (intro divide_left_mono) simp_all
  then show "(of_int td / of_int bd :: rat) \<le> 2 powi 53" using td2 by simp
qed

lemma estimate_measured:
  assumes "getBlock (max 1 (cb - 43200)) = Inr rts"
    and "0 < cb - max 1 (cb - 43200)" "0 < cts - rts" "cts - rts < 2 ^ 53"
    and "\<bar>cts - target\<bar> < 2 ^ 53"
  shows "estimate_block_from_timestamp getBlock target cb cts
         = Inr (max 1 (cb - int_of_float (round_double (of_int (cts - target)
               / round_double (of_int (cts - rts) / of_int (cb - max 1 (cb - 43200)))))))"
proof -
  define bd where "bd = cb - max 1 (cb - 43200)"
  define td where "td = cts - rts"
  define t where "t = cts - target"
  define s where "s = round_double (of_int td / of_int bd)"
  have bd: "0 < bd" "bd \<le> 43200" using assms(2) by (simp_all add: bd_def)
  have td: "0 < td" "td < 2 ^ 53" using assms(3,4) by (simp_all add: td_def)
  note x1 = seconds_per_block_bounds [OF bd td]
  have x1a: "\<bar>of_int td / of_int bd :: rat\<bar> \<le> 2 powi 53"
    using x1 td(1) bd(1) by simp
  have d1: "int_truediv td bd = Inr s"
    unfolding s_def using bd(1) by (intro int_truediv_value [OF _ x1a]) simp_all
  have "\<bar>of_int td / of_int 3600 :: rat\<bar> \<le> 2 powi 53"
    using seconds_per_block_bounds(2) [of 3600 td] td by simp
  then have d2: "int_truediv td 3600 = Inr (round_double (of_int td / of_int 3600))"
    by (rule int_truediv_value [where k = 53, rotated]) simp_all
  have p16: "round_double (2 powi (- 16)) = 2 powi (- 16)"
    by (rule round_double_pow2) simp
  have "round_double (2 powi (- 16)) \<le> s"
    unfolding s_def using x1(1) by (intro round_double_mono) simp_all
  then have s: "2 powi (- 16) \<le> s" unfolding p16 .
  then have s0: "0 < s" by (rule less_le_trans [rotated]) simp
  have "\<bar>of_int t / s\<bar> = \<bar>of_int t\<bar> / s" using s0 by simp
  also have "\<dots> \<le> 2 powi 53 / s"
    using of_int_abs_bound [OF assms(5) [folded t_def]] s0 by (intro divide_right_mono) simp_all
  also have "\<dots> \<le> 2 powi 53 / 2 powi (- 16)"
    using s by (intro divide_left_mono) simp_all
  also have "\<dots> = 2 powi 69" by (simp add: power_int_minus)
  finally have b69: "\<bar>of_int t / s\<bar> \<le> 2 powi 69" .
  have sn: "s \<noteq> 0" using s0 by simp
  have d3: "int_float_truediv t s = Inr (round_double (of_int t / s))"
    by (rule int_float_truediv_value [OF assms(5) [folded t_def] sn b69]) simp_all
  have c: "bd > 0 \<and> td > 0" using bd td by simp
  have "estimate_try getBlock target cb cts
      = Inr (max 1 (cb - int_of_float (round_double (of_int t / s))))"
    unfolding estimate_try_def day_blocks
    by (simp only: sum.case Let_def int_of_float_43200 assms(1) bd_def [symmetric]
        td_def [symmetric] t_def [symmetric] c simp_thms if_True d1 d2 d3)
  then show ?thesis
    unfolding estimate_block_from_timestamp_def s_def t_def td_def bd_def
    by (simp only: sum.case)
qed


lemma round_double_8: "round_double 8 = 8"
  using round_double_of_int [of 8] by simp

lemma round_double_2: "round_double 2 = 2"
  using round_double_of_int [of 2] by simp

lemma round_double_25_half: "round_double (25 / 2) = 25 / 2"
  using round_double_half [of 25] by simp

lemma round_double_minus_half: "round_double (- (1 / 2)) = - (1 / 2)"
  using round_double_half [of "- 1"] by simp

text \<open>
  Claim C8, as amended. \<open>estimate_block_from_timestamp\<close> reads the timestamp of the
  reference block \<open>max(1, currentBlock - 43200)\<close> by itself. For a time difference
  \<open>currentTimestamp - targetTimestamp\<close> below \<open>2^53\<close> in magnitude:
  \<^item> when the read of the reference block raises, or when the block difference or the
    time difference to the reference block is not positive, the result is
    \<open>max(1, currentBlock - d)\<close> where \<open>d\<close> is the time difference divided by 2 and
    truncated towards zero (the fallback of 2 seconds per block);
  \<^item> otherwise (with a time difference to the reference block below \<open>2^53\<close>)
    \<open>secondsPerBlock\<close> is the float quotient of the time difference by the block
    difference, and the result is \<open>max(1, currentBlock - int(q))\<close> where \<open>q\<close> is the
    float quotient of \<open>currentTimestamp - targetTimestamp\<close> by \<open>secondsPerBlock\<close> and
    \<open>int\<close> truncates towards zero;
  \<^item> in particular, with \<open>currentBlock = 1000\<close>, whose reference block is block 1,
    observed 1998 seconds earlier (2.0 seconds per block), and a target timestamp 100
    seconds in the past, the result is block 950.
\<close>

theorem estimate_block_from_timestamp_computes:
  assumes "ref = max 1 (cb - 43200)" "\<bar>cts - target\<bar> < 2 ^ 53"
  shows "(\<forall>e. getBlock ref = Inl e \<longrightarrow>
            estimate_block_from_timestamp getBlock target cb cts
            = Inr (max 1 (cb - trunc_div (cts - target) 2)))
       \<and> (\<forall>rts. getBlock ref = Inr rts \<and> (cb - ref \<le> 0 \<or> cts - rts \<le> 0) \<longrightarrow>
            estimate_block_from_timestamp getBlock target cb cts
            = Inr (max 1 (cb - trunc_div (cts - target) 2)))
       \<and> (\<forall>rts. getBlock ref = Inr rts \<and> 0 < cb - ref \<and> 0 < cts - rts \<and> cts - rts < 2 ^ 53 \<longrightarrow>
            estimate_block_from_timestamp getBlock target cb cts
            = Inr (max 1 (cb - int_of_float (round_double (of_int (cts - target)
                    / round_double (of_int (cts - rts) / of_int (cb - ref)))))))
       \<and> (cb = 1000 \<and> getBlock 1 = Inr (cts - 1998) \<and> target = cts - 100 \<longrightarrow>
            estimate_block_from_timestamp getBlock target cb cts = Inr 950)"
proof (intro conjI allI impI)
  fix e assume "getBlock ref = Inl e"
  then show "estimate_block_from_timestamp getBlock target cb cts
            = Inr (max 1 (cb - trunc_div (cts - target) 2))"
    unfolding assms(1) using assms(2)
    by (rule estimate_read_fails [where getBlock = getBlock and cb = cb])
next
  fix rts assume a: "getBlock ref = Inr rts \<and> (cb - ref \<le> 0 \<or> cts - rts \<le> 0)"
  from a have g: "getBlock (max 1 (cb - 43200)) = Inr rts"
    and c: "cb - max 1 (cb - 43200) \<le> 0 \<or> cts - rts \<le> 0"
    unfolding assms(1) by blast+
  show "estimate_block_from_timestamp getBlock target cb cts
            = Inr (max 1 (cb - trunc_div (cts - target) 2))"
    by (rule estimate_fallback [where getBlock = getBlock and cb = cb, OF g c assms(2)])
next
  fix rts assume a: "getBlock ref = Inr rts \<and> 0 < cb - ref \<and> 0 < cts - rts \<and> cts - rts < 2 ^ 53"
  from a have g: "getBlock (max 1 (cb - 43200)) = Inr rts"
    and c: "0 < cb - max 1 (cb - 43200)" "0 < cts - rts" "cts - rts < 2 ^ 53"
    unfolding assms(1) by blast+
  show "estimate_block_from_timestamp getBlock target cb cts
            = Inr (max 1 (cb - int_of_float (round_double (of_int (cts - target)
                    / round_double (of_int (cts - rts) / of_int (cb - ref))))))"
    unfolding assms(1) by (rule estimate_measured [where getBlock = getBlock and cb = cb, OF g c assms(2)])
next
  assume h: "cb = 1000 \<and> getBlock 1 = Inr (cts - 1998) \<and> target = cts - 100"
  have i: "int_of_float 50 = 50" using int_of_float_of_int [of 50] by simp
  have r50: "round_double 50 = 50" using round_double_of_int [of 50] by simp
  from h have g: "getBlock (max 1 (cb - 43200)) = Inr (cts - 1998)"
    and c: "0 < cb - max 1 (cb - 43200)" "0 < cts - (cts - 1998)" "cts - (cts - 1998) < 2 ^ 53"
    by simp_all
  have "estimate_block_from_timestamp getBlock target cb cts
      = Inr (max 1 (cb - int_of_float (round_double (of_int (cts - target)
               / round_double (of_int (cts - (cts - 1998)) / of_int (cb - max 1 (cb - 43200)))))))"
    by (rule estimate_measured [where getBlock = getBlock and cb = cb, OF g c assms(2)])
  also have "\<dots> = Inr 950" using h by (simp add: round_double_2 r50 i)
  finally show "estimate_block_from_timestamp getBlock target cb cts = Inr 950" .
qed


text \<open>
  The witness: the steady chain (the example), the stalled chain (time difference 0 to
  the reference block), the dead chain (the read raises) and the uneven chain (8.0
  seconds per block measured, quotient 12.5 truncated to 12).
\<close>

theorem estimate_block_from_timestamp_computes_witness:
  "(1::int) = max 1 (1000 - 43200) \<and> \<bar>1000000 - 999900\<bar> < (2::int) ^ 53
   \<and> steady_chain 1 = Inr (1000000 - 1998)
   \<and> estimate_block_from_timestamp steady_chain 999900 1000 1000000 = Inr 950
   \<and> stalled_chain 1 = Inr 1000000
   \<and> estimate_block_from_timestamp stalled_chain 999900 1000 1000000 = Inr 950
   \<and> dead_chain 1 = Inl RemoteError
   \<and> estimate_block_from_timestamp dead_chain 999900 1000 1000000 = Inr 950
   \<and> uneven_chain 1 = Inr 992008
   \<and> estimate_block_from_timestamp uneven_chain 999900 1000 1000000 = Inr 988"
proof -
  have r: "(1::int) = max 1 (1000 - 43200)" and t: "\<bar>1000000 - 999900\<bar> < (2::int) ^ 53"
    by simp_all
  have td: "trunc_div 100 2 = 50" by (simp add: trunc_div_def)
  have i: "int_of_float (25 / 2) = 12"
    using int_of_float_half [of 25] by (simp add: trunc_div_def)
  have 1: "estimate_block_from_timestamp steady_chain 999900 1000 1000000 = Inr 950"
    using estimate_block_from_timestamp_computes
      [OF r t, of steady_chain, THEN conjunct2, THEN conjunct2, THEN conjunct2]
    by (simp add: steady_chain_def)
  have 2: "estimate_block_from_timestamp stalled_chain 999900 1000 1000000 = Inr 950"
    using estimate_block_from_timestamp_computes
      [OF r t, of stalled_chain, THEN conjunct2, THEN conjunct1]
    by (simp add: stalled_chain_def td)
  have 3: "estimate_block_from_timestamp dead_chain 999900 1000 1000000 = Inr 950"
    using estimate_block_from_timestamp_computes [OF r t, of dead_chain, THEN conjunct1]
    by (simp add: dead_chain_def td)
  have 4: "estimate_block_from_timestamp uneven_chain 999900 1000 1000000 = Inr 988"
    using estimate_block_from_timestamp_computes
      [OF r t, of uneven_chain, THEN conjunct2, THEN conjunct2, THEN conjunct1]
    by (simp add: uneven_chain_def round_double_8 round_double_25_half i)
  show ?thesis
    using 1 2 3 4 by (simp add: steady_chain_def stalled_chain_def dead_chain_def uneven_chain_def)
qed

lemma spec_estimate_scenario:
  "spec_estimate 900 (1000000 - 200) (1000000 - 100) 1000 1000000 = Inr 950"
proof -
  have 1: "int_truediv 200 100 = Inr 2"
    using int_truediv_exact [of 100 200 2] by simp
  have 2: "int_float_truediv 100 2 = Inr 50"
    using int_float_truediv_two [of 100] by simp
  have 3: "\<lfloor>50 :: rat\<rfloor> = 50" by simp
  show ?thesis by (simp add: spec_estimate_def 1 2)
qed

lemma spec_estimate_stalled:
  "spec_estimate 1 1000000 999900 1000 1000000 = Inl ZeroDivisionError"
proof -
  have 1: "int_truediv 0 999 = Inr 0"
    using int_truediv_exact [of 999 0 0] by simp
  have "\<not> float_overflow (round_double (of_int 100))"
    by (rule no_float_overflow [where k = 53]) simp_all
  then have 2: "int_float_truediv 100 0 = Inl ZeroDivisionError"
    by (simp add: int_float_truediv_def Let_def)
  show ?thesis by (simp add: spec_estimate_def 1 2)
qed

lemma spec_estimate_future:
  "spec_estimate 1 998002 1000001 1000 1000000 = Inr 1001"
proof -
  have 1: "int_truediv 1998 999 = Inr 2"
    using int_truediv_exact [of 999 1998 2] by simp
  have 2: "int_float_truediv (- 1) 2 = Inr (- (1 / 2))"
    using int_float_truediv_two [of "- 1"] by simp
  have 3: "\<lfloor>- (1 / 2) :: rat\<rfloor> = - 1" by (rule floor_unique) simp_all
  show ?thesis by (simp add: spec_estimate_def 1 2 3)
qed

lemma estimate_uneven:
  "estimate_block_from_timestamp uneven_chain 999900 1000 1000000 = Inr 988"
proof -
  have i: "int_of_float (25 / 2) = 12"
    using int_of_float_half [of 25] by (simp add: trunc_div_def)
  show ?thesis
    using estimate_measured [of uneven_chain 1000 992008 1000000 999900]
    by (simp add: uneven_chain_def round_double_8 round_double_25_half i)
qed

lemma estimate_stalled:
  "estimate_block_from_timestamp stalled_chain 999900 1000 1000000 = Inr 950"
  using estimate_fallback [of stalled_chain 1000 1000000 1000000 999900]
  by (simp add: stalled_chain_def trunc_div_def)

lemma estimate_future:
  "estimate_block_from_timestamp steady_chain 1000001 1000 1000000 = Inr 1000"
proof -
  have i: "int_of_float (- (1 / 2)) = 0"
    using int_of_float_half [of "- 1"] by (simp add: trunc_div_def)
  show ?thesis
    using estimate_measured [of steady_chain 1000 998002 1000000 1000001]
    by (simp add: steady_chain_def round_double_2 round_double_minus_half i)
qed

text \<open>
  The claim as stated fails in three ways. On the uneven chain block 900 was observed
  200 seconds before block 1000, as the scenario says, and the formula of the claim gives
  950; the code measures on block 1 instead and returns 988. On the stalled chain the
  block difference is positive, so the claim takes no fallback and divides by a rate of
  0.0; the code falls back to 2.0 and returns 950. For a target one second in the
  future the quotient is -0.5: rounded down it gives block 1001, the code truncates it
  to 0 and returns block 1000.
\<close>

theorem estimate_block_from_timestamp_counterexample:
  "uneven_chain 900 = Inr (1000000 - 200)
   \<and> spec_estimate 900 (1000000 - 200) (1000000 - 100) 1000 1000000 = Inr 950
   \<and> estimate_block_from_timestamp uneven_chain (1000000 - 100) 1000 1000000 = Inr 988
   \<and> (0::int) < 1000 - max 1 (1000 - 43200)
   \<and> spec_estimate 1 1000000 999900 1000 1000000 = Inl ZeroDivisionError
   \<and> estimate_block_from_timestamp stalled_chain 999900 1000 1000000 = Inr 950
   \<and> spec_estimate 1 998002 1000001 1000 1000000 = Inr 1001
   \<and> estimate_block_from_timestamp steady_chain 1000001 1000 1000000 = Inr 1000"
  using spec_estimate_scenario spec_estimate_stalled spec_estimate_future
    estimate_uneven estimate_stalled estimate_future
  by (simp add: uneven_chain_def)

section \<open>The challenge marker\<close>

lemma int_truediv_nonneg:
  assumes "int_truediv a b = Inr r" "0 \<le> a" "0 < b"
  shows "0 \<le> r"
proof -
  have "r = round_double (of_int a / of_int b)"
    using assms(1,3) by (auto simp add: int_truediv_def Let_def split: if_splits)
  moreover have "(0::rat) \<le> of_int a / of_int b" using assms(2,3) by simp
  ultimately show ?thesis by (simp add: round_double_nonneg)
qed

lemma hex_digit_nonneg: "hex_digit_value c = Some d \<Longrightarrow> 0 \<le> d"
  by (auto simp add: hex_digit_value_def split: if_splits)

lemma parse_hex_nonneg: "parse_hex_digits acc s = Inr n \<Longrightarrow> 0 \<le> acc \<Longrightarrow> 0 \<le> n"
proof (induction s arbitrary: acc)
  case Nil
  then show ?case by simp
next
  case (Cons c cs)
  then show ?case
    by (auto split: option.splits dest!: hex_digit_nonneg)
qed

lemma int_base16_nonneg: "int_base16 s = Inr n \<Longrightarrow> 0 \<le> n"
  using parse_hex_nonneg [of 0 s n] by (auto simp add: int_base16_def split: if_splits)

lemma process_transaction_challenge:
  assumes "process_transaction self tx = Inr self'" "194 \<le> length (data tx)"
  shows "\<exists>amt. 0 \<le> amt
     \<and> mined_blocks self' = emitted self tx amt @ mined_blocks self
     \<and> previous_challenge self' = Some (challenge_field tx)"
proof -
  have len: "66 \<le> length (data tx)" using assms(2) by simp
  from assms(1) have t: "\<not> length (topics tx) < 2"
    by (auto simp add: process_transaction_def Let_def split: if_splits)
  from assms(1) t len obtain wei amt where w: "int_base16 (str_slice 2 66 (data tx)) = Inr wei"
    and a: "int_truediv wei (10 ^ 18) = Inr amt"
    by (auto simp add: process_transaction_def Let_def split: sum.splits)
  have "0 \<le> amt" using a int_base16_nonneg [OF w] by (rule int_truediv_nonneg) simp
  moreover have "mined_blocks self' = emitted self tx amt @ mined_blocks self
     \<and> previous_challenge self' = Some (challenge_field tx)"
    using assms t len w a
    by (auto simp add: process_transaction_def Let_def emitted_def miner_of_def)
  ultimately show ?thesis by blast
qed

lemma process_transaction_eval:
  assumes "2 \<le> length (topics tx)" "194 \<le> length (data tx)"
    and "int_base16 (str_slice 2 66 (data tx)) = Inr wei" "int_truediv wei (10 ^ 18) = Inr amt"
  shows "process_transaction self tx =
     Inr (self\<lparr>previous_challenge := Some (challenge_field tx),
               mined_blocks := emitted self tx amt @ mined_blocks self\<rparr>)"
  using assms
  by (auto simp add: process_transaction_def Let_def emitted_def miner_of_def)

lemma process_all_append:
  "process_all self (xs @ ys) =
     (case process_all self xs of
        (self', None) \<Rightarrow> process_all self' ys
      | (self', Some e) \<Rightarrow> (self', Some e))"
  by (induction xs arbitrary: self) (auto split: sum.splits)

lemma process_all_snoc_ok:
  assumes "process_all self (xs @ [tx]) = (self2, None)"
  shows "\<exists>self1. process_all self xs = (self1, None) \<and> process_transaction self1 tx = Inr self2"
  using assms
  by (auto simp add: process_all_append split: prod.splits option.splits sum.splits)

text \<open>
  Claim C5, as amended. Take a log folded through \<open>process_transaction\<close> without an
  exception, and two consecutive entries \<open>tx1\<close>, \<open>tx2\<close> of it whose data carry a challenge
  field (at least 194 characters). The entry \<open>tx2\<close> always puts its own record, with a
  non-negative amount, at the head of \<open>mined_blocks\<close>. When its challenge differs from
  that of \<open>tx1\<close>, exactly one marker with the amount \<open>-1\<close> lies right under that record;
  the marker carries the hash and the miner of \<open>tx2\<close> and the block number of the record
  that was at the head of \<open>mined_blocks\<close>, which is the block of \<open>tx1\<close>, the latest entry
  of the previous challenge. When the challenge is the same, no marker is put. The first
  entry of a fresh fetcher, whose \<open>previous_challenge\<close> is unset, puts its record only.
\<close>

theorem challenge_change_marker:
  assumes "process_all self0 (pre @ [tx1, tx2]) = (self2, None)"
    and "194 \<le> length (data tx1)" "194 \<le> length (data tx2)"
  shows "\<exists>self1 amt. process_all self0 (pre @ [tx1]) = (self1, None) \<and> 0 \<le> amt
     \<and> (challenge_field tx2 \<noteq> challenge_field tx1 \<longrightarrow>
          mined_blocks self2 =
            (blockNumber tx2, transactionHash tx2, miner_of tx2, amt)
            # (blockNumber tx1, transactionHash tx2, miner_of tx2, - 1)
            # mined_blocks self1)
     \<and> (challenge_field tx2 = challenge_field tx1 \<longrightarrow>
          mined_blocks self2 =
            (blockNumber tx2, transactionHash tx2, miner_of tx2, amt) # mined_blocks self1)
     \<and> (previous_challenge self0 = None \<and> pre = [] \<longrightarrow>
          (\<exists>amt1. 0 \<le> amt1 \<and> mined_blocks self1 =
            (blockNumber tx1, transactionHash tx1, miner_of tx1, amt1) # mined_blocks self0))"
proof -
  have e: "process_all self0 ((pre @ [tx1]) @ [tx2]) = (self2, None)"
    using assms(1) by simp
  from process_all_snoc_ok [OF e]
  obtain self1 where s1: "process_all self0 (pre @ [tx1]) = (self1, None)"
    and p2: "process_transaction self1 tx2 = Inr self2" by blast
  from process_all_snoc_ok [OF s1] obtain self where s0: "process_all self0 pre = (self, None)"
    and p1: "process_transaction self tx1 = Inr self1" by blast
  from process_transaction_challenge [OF p1 assms(2)] obtain amt1 where a1: "0 \<le> amt1"
    and m1: "mined_blocks self1 = emitted self tx1 amt1 @ mined_blocks self"
    and c1: "previous_challenge self1 = Some (challenge_field tx1)" by blast
  from process_transaction_challenge [OF p2 assms(3)] obtain amt where a2: "0 \<le> amt"
    and m2: "mined_blocks self2 = emitted self1 tx2 amt @ mined_blocks self1" by blast
  have h: "mined_blocks self1 \<noteq> []" "fst (hd (mined_blocks self1)) = blockNumber tx1"
    by (simp_all add: m1 emitted_def)
  have first: "pre = [] \<Longrightarrow> self = self0" using s0 by simp
  show ?thesis
  proof (intro exI conjI impI)
    show "process_all self0 (pre @ [tx1]) = (self1, None)" by (rule s1)
    show "0 \<le> amt" by (rule a2)
    show "mined_blocks self2 =
            (blockNumber tx2, transactionHash tx2, miner_of tx2, amt)
            # (blockNumber tx1, transactionHash tx2, miner_of tx2, - 1)
            # mined_blocks self1"
      if "challenge_field tx2 \<noteq> challenge_field tx1"
      using that by (simp add: m2 emitted_def c1 h)
    show "mined_blocks self2 =
            (blockNumber tx2, transactionHash tx2, miner_of tx2, amt) # mined_blocks self1"
      if "challenge_field tx2 = challenge_field tx1"
      using that by (simp add: m2 emitted_def c1)
    show "0 \<le> amt1" by (rule a1)
    show "mined_blocks self1 =
            (blockNumber tx1, transactionHash tx1, miner_of tx1, amt1) # mined_blocks self0"
      if "previous_challenge self0 = None \<and> pre = []"
      using that first by (simp add: m1 emitted_def)
  qed
qed



lemma mint_event_amount_hex:
  "str_slice 2 66 (data (mint_event b h c)) = replicate 47 CHR ''0'' @ ''2b5e3af16b1880000''"
  by (simp add: mint_event_def str_slice_def)

lemma mint_event_challenge: "length c = 64 \<Longrightarrow> challenge_field (mint_event b h c) = c"
  by (simp add: mint_event_def challenge_field_def str_slice_def)

lemma mint_event_fields:
  "length (topics (mint_event b h c)) = 2"
  "length c = 64 \<Longrightarrow> length (data (mint_event b h c)) = 194"
  "blockNumber (mint_event b h c) = b" "transactionHash (mint_event b h c) = h"
  by (simp_all add: mint_event_def)

lemma mint_event_miner:
  "miner_of (mint_event b h c) = ''0x7adf1927aa0c75fd054804e9fc6574a56c211abb''"
  by (simp add: mint_event_def miner_of_def get_miner_address_from_topic_def)


lemma hex_tail: "parse_hex_digits 0 ''2b5e3af16b1880000'' = Inr 50000000000000000000"
  by code_simp

lemma parse_leading_zeros:
  "parse_hex_digits 0 (replicate n CHR ''0'' @ s) = parse_hex_digits 0 s"
proof (induction n)
  case 0
  show ?case by simp
next
  case (Suc n)
  have z: "hex_digit_value CHR ''0'' = Some 0" by code_simp
  show ?case using Suc by (simp add: z)
qed

lemma mint_event_wei:
  "int_base16 (str_slice 2 66 (data (mint_event b h c))) = Inr 50000000000000000000"
  unfolding mint_event_amount_hex int_base16_def parse_leading_zeros hex_tail by simp

lemma fifty_tokens: "int_truediv 50000000000000000000 (10 ^ 18) = Inr 50"
  using int_truediv_exact [of "10 ^ 18" 50000000000000000000 50] by simp

lemma process_mint_event:
  assumes "length c = 64"
  shows "process_transaction self (mint_event b h c) =
     Inr (self\<lparr>previous_challenge := Some c,
               mined_blocks := emitted self (mint_event b h c) 50 @ mined_blocks self\<rparr>)"
proof -
  have 1: "2 \<le> length (topics (mint_event b h c))" by (simp add: mint_event_fields)
  have 2: "194 \<le> length (data (mint_event b h c))" by (simp add: mint_event_fields assms)
  show ?thesis
    using process_transaction_eval [OF 1 2 mint_event_wei fifty_tokens, of self]
    by (simp add: mint_event_challenge assms)
qed

lemma challenge_lengths: "length challenge_A = 64" "length challenge_B = 64"
  by (simp_all add: challenge_A_def challenge_B_def)

lemma challenges_differ: "challenge_B \<noteq> challenge_A"
proof
  assume "challenge_B = challenge_A"
  then have "hd challenge_B = hd challenge_A" by simp
  then show False by (simp add: challenge_A_def challenge_B_def numeral_eq_Suc)
qed

lemma example_log:
  "process_all new_fetcher
     [mint_event 10 ''0x01'' challenge_A, mint_event 20 ''0x02'' challenge_A,
      mint_event 30 ''0x03'' challenge_B]
   = (\<lparr>mined_blocks =
         [(30, ''0x03'', ''0x7adf1927aa0c75fd054804e9fc6574a56c211abb'', 50),
          (20, ''0x03'', ''0x7adf1927aa0c75fd054804e9fc6574a56c211abb'', - 1),
          (20, ''0x02'', ''0x7adf1927aa0c75fd054804e9fc6574a56c211abb'', 50),
          (10, ''0x01'', ''0x7adf1927aa0c75fd054804e9fc6574a56c211abb'', 50)],
       previous_challenge = Some challenge_B, last_processed_block_file = None\<rparr>, None)"
  using challenges_differ
  by (simp add: process_mint_event challenge_lengths emitted_def new_fetcher_def
      mint_event_fields mint_event_miner mint_event_challenge)


lemma example_log_two:
  "process_all new_fetcher
     [mint_event 10 ''0x01'' challenge_A, mint_event 20 ''0x02'' challenge_A]
   = (\<lparr>mined_blocks =
         [(20, ''0x02'', ''0x7adf1927aa0c75fd054804e9fc6574a56c211abb'', 50),
          (10, ''0x01'', ''0x7adf1927aa0c75fd054804e9fc6574a56c211abb'', 50)],
       previous_challenge = Some challenge_A, last_processed_block_file = None\<rparr>, None)"
  by (simp add: process_mint_event challenge_lengths emitted_def new_fetcher_def
      mint_event_fields mint_event_miner mint_event_challenge)

text \<open>
  The witness: three mint entries in blocks 10, 20 and 30, the third with a new
  challenge; and the first entry of the same log on a fresh fetcher.
\<close>

theorem challenge_change_marker_witness:
  "process_all new_fetcher
     ([mint_event 10 ''0x01'' challenge_A]
      @ [mint_event 20 ''0x02'' challenge_A, mint_event 30 ''0x03'' challenge_B])
   = (\<lparr>mined_blocks =
         [(30, ''0x03'', ''0x7adf1927aa0c75fd054804e9fc6574a56c211abb'', 50),
          (20, ''0x03'', ''0x7adf1927aa0c75fd054804e9fc6574a56c211abb'', - 1),
          (20, ''0x02'', ''0x7adf1927aa0c75fd054804e9fc6574a56c211abb'', 50),
          (10, ''0x01'', ''0x7adf1927aa0c75fd054804e9fc6574a56c211abb'', 50)],
       previous_challenge = Some challenge_B, last_processed_block_file = None\<rparr>, None)
   \<and> 194 \<le> length (data (mint_event 20 ''0x02'' challenge_A))
   \<and> 194 \<le> length (data (mint_event 30 ''0x03'' challenge_B))
   \<and> challenge_field (mint_event 30 ''0x03'' challenge_B)
       \<noteq> challenge_field (mint_event 20 ''0x02'' challenge_A)
   \<and> (\<exists>self1 amt. process_all new_fetcher
           ([mint_event 10 ''0x01'' challenge_A] @ [mint_event 20 ''0x02'' challenge_A])
           = (self1, None)
         \<and> 0 \<le> amt
         \<and> [(30, ''0x03'', ''0x7adf1927aa0c75fd054804e9fc6574a56c211abb'', 50),
             (20, ''0x03'', ''0x7adf1927aa0c75fd054804e9fc6574a56c211abb'', - 1),
             (20, ''0x02'', ''0x7adf1927aa0c75fd054804e9fc6574a56c211abb'', 50),
             (10, ''0x01'', ''0x7adf1927aa0c75fd054804e9fc6574a56c211abb'', 50)]
           = (30, ''0x03'', ''0x7adf1927aa0c75fd054804e9fc6574a56c211abb'', amt)
             # (20, ''0x03'', ''0x7adf1927aa0c75fd054804e9fc6574a56c211abb'', - 1)
             # mined_blocks self1)
   \<and> previous_challenge new_fetcher = None
   \<and> (\<exists>self1 amt1. process_all new_fetcher ([] @ [mint_event 10 ''0x01'' challenge_A])
           = (self1, None)
         \<and> 0 \<le> amt1
         \<and> mined_blocks self1
           = [(10, ''0x01'', ''0x7adf1927aa0c75fd054804e9fc6574a56c211abb'', amt1)])"
proof -
  let ?e10 = "mint_event 10 ''0x01'' challenge_A"
  let ?e20 = "mint_event 20 ''0x02'' challenge_A"
  let ?e30 = "mint_event 30 ''0x03'' challenge_B"
  have run: "process_all new_fetcher ([?e10] @ [?e20, ?e30])
   = (\<lparr>mined_blocks =
         [(30, ''0x03'', ''0x7adf1927aa0c75fd054804e9fc6574a56c211abb'', 50),
          (20, ''0x03'', ''0x7adf1927aa0c75fd054804e9fc6574a56c211abb'', - 1),
          (20, ''0x02'', ''0x7adf1927aa0c75fd054804e9fc6574a56c211abb'', 50),
          (10, ''0x01'', ''0x7adf1927aa0c75fd054804e9fc6574a56c211abb'', 50)],
       previous_challenge = Some challenge_B, last_processed_block_file = None\<rparr>, None)"
    using example_log by simp
  have l1: "194 \<le> length (data ?e20)" and l2: "194 \<le> length (data ?e30)"
    by (simp_all add: mint_event_fields challenge_lengths)
  have d: "challenge_field ?e30 \<noteq> challenge_field ?e20"
    using challenges_differ by (simp add: mint_event_challenge challenge_lengths)
  have l0: "194 \<le> length (data ?e10)"
    by (simp add: mint_event_fields challenge_lengths)
  have run2: "process_all new_fetcher ([] @ [?e10, ?e20])
   = (\<lparr>mined_blocks =
         [(20, ''0x02'', ''0x7adf1927aa0c75fd054804e9fc6574a56c211abb'', 50),
          (10, ''0x01'', ''0x7adf1927aa0c75fd054804e9fc6574a56c211abb'', 50)],
       previous_challenge = Some challenge_A, last_processed_block_file = None\<rparr>, None)"
    using example_log_two by simp
  have n: "previous_challenge new_fetcher = None" "mined_blocks new_fetcher = []"
    by (simp_all add: new_fetcher_def)
  from challenge_change_marker [OF run l1 l2] d
  have a: "\<exists>self1 amt. process_all new_fetcher ([?e10] @ [?e20]) = (self1, None)
         \<and> 0 \<le> amt
         \<and> [(30, ''0x03'', ''0x7adf1927aa0c75fd054804e9fc6574a56c211abb'', 50),
             (20, ''0x03'', ''0x7adf1927aa0c75fd054804e9fc6574a56c211abb'', - 1),
             (20, ''0x02'', ''0x7adf1927aa0c75fd054804e9fc6574a56c211abb'', 50),
             (10, ''0x01'', ''0x7adf1927aa0c75fd054804e9fc6574a56c211abb'', 50)]
           = (30, ''0x03'', ''0x7adf1927aa0c75fd054804e9fc6574a56c211abb'', amt)
             # (20, ''0x03'', ''0x7adf1927aa0c75fd054804e9fc6574a56c211abb'', - 1)
             # mined_blocks self1"
    by (simp add: mint_event_fields mint_event_miner)
  from challenge_change_marker [OF run2 l0 l1] n
  have b: "\<exists>self1 amt1. process_all new_fetcher ([] @ [?e10]) = (self1, None)
         \<and> 0 \<le> amt1
         \<and> mined_blocks self1
           = [(10, ''0x01'', ''0x7adf1927aa0c75fd054804e9fc6574a56c211abb'', amt1)]"
    by (simp add: mint_event_fields mint_event_miner) blast
  show ?thesis
    using run l1 l2 d a b n(1) by blast
qed

text \<open>
  The block of the marker is not the first block of the previous challenge: in the log
  above the challenge \<open>challenge_A\<close> first occurs in block 10, and the marker put when
  \<open>challenge_B\<close> arrives carries block 20.
\<close>

theorem challenge_marker_block_counterexample:
  "process_all new_fetcher
     [mint_event 10 ''0x01'' challenge_A, mint_event 20 ''0x02'' challenge_A,
      mint_event 30 ''0x03'' challenge_B]
   = (\<lparr>mined_blocks =
         [(30, ''0x03'', ''0x7adf1927aa0c75fd054804e9fc6574a56c211abb'', 50),
          (20, ''0x03'', ''0x7adf1927aa0c75fd054804e9fc6574a56c211abb'', - 1),
          (20, ''0x02'', ''0x7adf1927aa0c75fd054804e9fc6574a56c211abb'', 50),
          (10, ''0x01'', ''0x7adf1927aa0c75fd054804e9fc6574a56c211abb'', 50)],
       previous_challenge = Some challenge_B, last_processed_block_file = None\<rparr>, None)
   \<and> challenge_field (mint_event 20 ''0x02'' challenge_A) = challenge_A
   \<and> challenge_field (mint_event 30 ''0x03'' challenge_B) = challenge_B
   \<and> challenge_B \<noteq> challenge_A
   \<and> first_block_of_challenge
        [mint_event 10 ''0x01'' challenge_A, mint_event 20 ''0x02'' challenge_A,
         mint_event 30 ''0x03'' challenge_B] challenge_A = Some 10"
  using example_log challenges_differ
  by (simp add: mint_event_challenge challenge_lengths mint_event_fields)

section \<open>Resuming from the checkpoint\<close>

lemma scan_windows_returns:
  assumes "1 \<le> batch_size"
  shows "\<exists>self' rest. scan_windows get_logs batch_size current_block current_start self fetched
             = Some (self', fetched @ rest)
          \<and> (current_start \<le> current_block \<longrightarrow>
               rest \<noteq> [] \<and> hd rest = (current_start,
                                 min (current_start + batch_size - 1) current_block))
          \<and> (\<forall>w \<in> set rest. current_start \<le> fst w)"
proof (induction "nat (current_block + 1 - current_start)"
         arbitrary: current_start self fetched rule: less_induct)
  case less
  let ?e = "min (current_start + batch_size - 1) current_block"
  let ?w = "(current_start, ?e)"
  show ?case
  proof (cases "current_start \<le> current_block")
    case False
    then show ?thesis by (subst scan_windows.simps) simp
  next
    case True
    obtain s r where p: "process_all self (fetch_logs get_logs current_start ?e) = (s, r)"
      by (cases "process_all self (fetch_logs get_logs current_start ?e)") auto
    show ?thesis
    proof (cases r)
      case (Some e)
      have "scan_windows get_logs batch_size current_block current_start self fetched
            = Some (s, fetched @ [?w])"
        using True p Some by (subst scan_windows.simps) simp
      then show ?thesis using True by simp
    next
      case None
      have step: "scan_windows get_logs batch_size current_block current_start self fetched
            = scan_windows get_logs batch_size current_block (?e + 1)
                (save_last_processed_block s ?e) (fetched @ [?w])"
        using True p None by (subst scan_windows.simps) simp
      have ge: "current_start \<le> ?e" using True assms by simp
      then have "nat (current_block + 1 - (?e + 1)) < nat (current_block + 1 - current_start)"
        using True by simp
      from less [OF this, of "save_last_processed_block s ?e" "fetched @ [?w]"]
      obtain self' rest where
        r: "scan_windows get_logs batch_size current_block (?e + 1)
              (save_last_processed_block s ?e) (fetched @ [?w])
            = Some (self', (fetched @ [?w]) @ rest)"
        and a: "\<forall>w \<in> set rest. ?e + 1 \<le> fst w"
        by blast
      have "\<forall>w \<in> set (?w # rest). current_start \<le> fst w"
        using a ge by auto
      then show ?thesis
        using step r True by (intro exI [of _ self'] exI [of _ "?w # rest"]) simp
    qed
  qed
qed

text \<open>
  Claim C1. What \<open>run_once\<close> does when the checkpoint file holds the block \<open>c\<close>, the head
  of the chain is \<open>h\<close> and the batch size is at least 1: the run returns; when \<open>c \<le> h\<close>
  the first range passed to \<open>fetch_logs\<close> is \<open>[c, min (c + batch_size - 1) h]\<close>, which
  starts at the checkpoint block itself and not at \<open>c + 1\<close>; when \<open>h < c\<close> nothing is
  fetched; and no range starts below \<open>c\<close>.
\<close>

theorem run_once_first_window:
  assumes "last_processed_block_file self = Some c" "1 \<le> batch_size"
  shows "\<exists>self' fetched. run_once (Inr h) get_logs batch_size self = Some (self', fetched)
          \<and> (c \<le> h \<longrightarrow> fetched \<noteq> [] \<and> hd fetched = (c, min (c + batch_size - 1) h))
          \<and> (h < c \<longrightarrow> fetched = [])
          \<and> (\<forall>w \<in> set fetched. c \<le> fst w)"
proof (cases "c \<le> h")
  case False
  then show ?thesis
    using assms(1) by (simp add: run_once_def load_last_processed_block_def)
next
  case True
  from scan_windows_returns [OF assms(2), of get_logs h c self "[]"]
  obtain self' rest where "scan_windows get_logs batch_size h c self [] = Some (self', rest)"
    "c \<le> h \<longrightarrow> rest \<noteq> [] \<and> hd rest = (c, min (c + batch_size - 1) h)"
    "\<forall>w \<in> set rest. c \<le> fst w"
    by auto
  then show ?thesis
    using assms(1) True by (simp add: run_once_def load_last_processed_block_def)
qed

lemma run_example:
  "run_once (Inr 1000) no_logs 499 (new_fetcher\<lparr>last_processed_block_file := Some 100\<rparr>)
   = Some (new_fetcher\<lparr>last_processed_block_file := Some 1000\<rparr>, [(100, 598), (599, 1000)])"
  by (simp add: run_once_def load_last_processed_block_def new_fetcher_def scan_windows.simps
      fetch_logs_def no_logs_def save_last_processed_block_def)

lemma run_example_head:
  "run_once (Inr 100) no_logs 499 (new_fetcher\<lparr>last_processed_block_file := Some 100\<rparr>)
   = Some (new_fetcher\<lparr>last_processed_block_file := Some 100\<rparr>, [(100, 100)])"
  by (simp add: run_once_def load_last_processed_block_def new_fetcher_def scan_windows.simps
      fetch_logs_def no_logs_def save_last_processed_block_def)

text \<open>
  The witness: checkpoint 100, head 1000 and the default batch size 499. The first range
  is \<open>[100, 598]\<close>.
\<close>

theorem run_once_first_window_witness:
  "last_processed_block_file (new_fetcher\<lparr>last_processed_block_file := Some 100\<rparr>) = Some 100
   \<and> (1::int) \<le> 499
   \<and> (\<exists>self' fetched.
         run_once (Inr 1000) no_logs 499 (new_fetcher\<lparr>last_processed_block_file := Some 100\<rparr>)
           = Some (self', fetched)
         \<and> fetched \<noteq> [] \<and> hd fetched = (100, 598))"
proof -
  have c: "last_processed_block_file (new_fetcher\<lparr>last_processed_block_file := Some 100\<rparr>)
             = Some 100"
    by simp
  from run_once_first_window [OF c, of 499 1000 no_logs]
  show ?thesis by simp blast
qed

text \<open>
  The runs in full. With the checkpoint 100 and the head 1000 the ranges are
  \<open>[100, 598]\<close> and \<open>[599, 1000]\<close>, not \<open>[101, 599]\<close>; with the head at the checkpoint the
  run fetches \<open>[100, 100]\<close> again.
\<close>

theorem run_once_refetches_checkpoint:
  "run_once (Inr 1000) no_logs 499 (new_fetcher\<lparr>last_processed_block_file := Some 100\<rparr>)
     = Some (new_fetcher\<lparr>last_processed_block_file := Some 1000\<rparr>, [(100, 598), (599, 1000)])
   \<and> run_once (Inr 100) no_logs 499 (new_fetcher\<lparr>last_processed_block_file := Some 100\<rparr>)
     = Some (new_fetcher\<lparr>last_processed_block_file := Some 100\<rparr>, [(100, 100)])
   \<and> (100, 598) \<noteq> (101 :: int, 599 :: int)"
  using run_example run_example_head by simp
end
